theory Spec2Isabelle
  imports Complex_Main
begin

section \<open>Data model (types/market)\<close>

text \<open>
  The TypeScript \<^verbatim>\<open>number\<close> fields that carry amounts (prices, volatility, sentiment,
  magnitude, cash) are modelled as exact reals: rounding, \<^verbatim>\<open>NaN\<close> and the infinities
  of IEEE doubles are outside this development. \<^verbatim>\<open>Date.now()\<close> is an integer count of
  milliseconds, so timestamps are \<^typ>\<open>int\<close>. The two sources of nondeterminism,
  \<^verbatim>\<open>Math.random()\<close> and \<^verbatim>\<open>Date.now()\<close>, are explicit arguments of every function
  that reads them.
\<close>

record Company =
  ticker :: string
  name :: string
  sector :: string
  description :: string
  basePrice :: real
  volatility :: real

record PricePoint =
  ticker :: string
  price :: real
  timestamp :: int

record NewsEvent =
  ticker :: string
  headline :: string
  body :: string
  sentiment :: real
  magnitude :: real
  timestamp :: int

section \<open>Price engine (utils/priceEngine)\<close>

text \<open>
  \<^verbatim>\<open>calculateNewPrice\<close>, one definition per local constant of the source.
  \<open>random\<close> is the value \<^verbatim>\<open>Math.random()\<close> returned, \<open>now\<close> the value of
  \<^verbatim>\<open>Date.now()\<close>; \<open>timeDelta\<close> defaults to 1 at the only call site.
\<close>

definition drift :: "real \<Rightarrow> real \<Rightarrow> real" where
  "drift random timeDelta = (random - 0.5) * 0.02 * max 1 timeDelta"

definition recentNewsForCompany :: "int \<Rightarrow> Company \<Rightarrow> NewsEvent list \<Rightarrow> NewsEvent list" where
  "recentNewsForCompany now company recentNews =
     filter (\<lambda>n. NewsEvent.ticker n = Company.ticker company \<and> now - NewsEvent.timestamp n < 120000)
       recentNews"

definition sentimentImpact :: "int \<Rightarrow> Company \<Rightarrow> NewsEvent list \<Rightarrow> real" where
  "sentimentImpact now company recentNews =
     (if length (recentNewsForCompany now company recentNews) > 0 then
        (let totalImpact =
               foldl (\<lambda>sum news. sum + sentiment news * magnitude news) 0
                 (recentNewsForCompany now company recentNews)
         in totalImpact * volatility company * 0.08)
      else 0)"

definition calculateNewPrice ::
  "real \<Rightarrow> int \<Rightarrow> real \<Rightarrow> Company \<Rightarrow> NewsEvent list \<Rightarrow> real \<Rightarrow> real" where
  "calculateNewPrice random now currentPrice company recentNews timeDelta =
     (let volatilityMultiplier = 1 + volatility company * 0.5;
          priceChangePercent =
            (drift random timeDelta + sentimentImpact now company recentNews) * volatilityMultiplier;
          newPrice = currentPrice * (1 + priceChangePercent)
      in max newPrice 0.01)"

definition initializePriceHistory :: "int \<Rightarrow> string \<Rightarrow> real \<Rightarrow> PricePoint list" where
  "initializePriceHistory now tick basePrice' =
     [\<lparr>PricePoint.ticker = tick, price = basePrice', timestamp = now\<rparr>]"

subsection \<open>The specification's wording of the engine\<close>

text \<open>
  Section 4.1 of the specification, steps 2 to 5: the events of this ticker inside the
  120 second window, the weighted sum over them, and the price before the clamp.
\<close>

definition spec_window :: "int \<Rightarrow> Company \<Rightarrow> NewsEvent list \<Rightarrow> NewsEvent list" where
  "spec_window now company recentNews =
     [n \<leftarrow> recentNews. NewsEvent.ticker n = Company.ticker company \<and>
                        now - NewsEvent.timestamp n < 120 * 1000]"

definition spec_sentimentImpact :: "int \<Rightarrow> Company \<Rightarrow> NewsEvent list \<Rightarrow> real" where
  "spec_sentimentImpact now company recentNews =
     volatility company * 0.08 *
       (\<Sum>n \<leftarrow> spec_window now company recentNews. sentiment n * magnitude n)"

definition spec_unclamped :: "real \<Rightarrow> real \<Rightarrow> real \<Rightarrow> real \<Rightarrow> real" where
  "spec_unclamped currentPrice vol d s = currentPrice * (1 + (d + s) * (1 + vol * 0.5))"

definition spec_driftBound :: "real \<Rightarrow> real" where
  "spec_driftBound timeDeltaSeconds = 0.01 * max 1 timeDeltaSeconds"

text \<open>The ranges the data model gives a news event: sentiment in \<open>[-1, 1]\<close>, magnitude in \<open>[0.3, 1.0]\<close>.\<close>

definition inRange :: "NewsEvent \<Rightarrow> bool" where
  "inRange n = (- 1 \<le> sentiment n \<and> sentiment n \<le> 1 \<and> 0.3 \<le> magnitude n \<and> magnitude n \<le> 1)"

subsection \<open>The engine on JavaScript numbers\<close>












section \<open>Portfolio and market state (types/market)\<close>

text \<open>
  Modelled from the spec: the declarations of \<^verbatim>\<open>Portfolio\<close> and of its positions
  (\<^verbatim>\<open>types/market\<close>) are not among the sources. Section 3 of the specification gives a
  portfolio as cash and a mapping from ticker to a position of an integer number of shares
  and an average cost. The fields of \<^verbatim>\<open>MarketState\<close> are the ones \<^verbatim>\<open>useMarket\<close> builds.
\<close>

record Position =
  shares :: int
  averageCost :: real

record Portfolio =
  cash :: real
  positions :: "string \<rightharpoonup> Position"

record MarketState =
  companies :: "Company list"
  prices :: "string \<rightharpoonup> real"
  priceHistory :: "string \<rightharpoonup> PricePoint list"
  news :: "NewsEvent list"
  portfolio :: Portfolio

section \<open>Market orchestrator (hooks/useMarket)\<close>

subsection \<open>Bounded buffers\<close>

text \<open>
  The history append of the tick loop: copy, \<^verbatim>\<open>push\<close>, and one \<^verbatim>\<open>shift()\<close> when the length
  is over 100.
\<close>

definition appendHistory :: "PricePoint list \<Rightarrow> PricePoint \<Rightarrow> PricePoint list" where
  "appendHistory prevHistory point =
     (let history = prevHistory @ [point]
      in if length history > 100 then tl history else history)"

text \<open>
  The news append of \<^verbatim>\<open>generateAndUpdateNews\<close>: concatenate, then \<^verbatim>\<open>splice\<close> the surplus
  over 50 off the front.
\<close>

definition appendNews :: "NewsEvent list \<Rightarrow> NewsEvent list \<Rightarrow> NewsEvent list" where
  "appendNews prevNews newsEvents =
     (let updatedNews = prevNews @ newsEvents
      in if length updatedNews > 50
         then drop (length updatedNews - 50) updatedNews
         else updatedNews)"

text \<open>
  The state update of \<^verbatim>\<open>generateAndUpdateNews\<close>: nothing happens for an empty batch or
  before the market is initialised (\<open>None\<close> is the hook's \<^verbatim>\<open>null\<close> state).
\<close>

definition updateNews :: "MarketState option \<Rightarrow> NewsEvent list \<Rightarrow> MarketState option" where
  "updateNews prevState newsEvents =
     (if length newsEvents > 0 then
        (case prevState of
           None \<Rightarrow> None
         | Some s \<Rightarrow> Some (s\<lparr>news := appendNews (news s) newsEvents\<rparr>))
      else prevState)"

subsection \<open>Initialisation\<close>

text \<open>
  The \<^verbatim>\<open>forEach\<close> of \<^verbatim>\<open>initialize\<close>. Each call of \<^verbatim>\<open>initializePriceHistory\<close> reads the clock
  itself; \<open>clock i\<close> is the reading for the company at index \<open>i\<close>. The roster and the
  initial portfolio come from collaborators and are arguments.
\<close>

fun initLoop ::
  "(nat \<Rightarrow> int) \<Rightarrow> nat \<Rightarrow> Company list \<Rightarrow>
   (string \<rightharpoonup> real) \<times> (string \<rightharpoonup> PricePoint list) \<Rightarrow>
   (string \<rightharpoonup> real) \<times> (string \<rightharpoonup> PricePoint list)" where
  "initLoop clock i [] acc = acc"
| "initLoop clock i (company # rest) (prices', priceHistory') =
     initLoop clock (Suc i) rest
       (prices'(Company.ticker company \<mapsto> basePrice company),
        priceHistory'(Company.ticker company \<mapsto>
          initializePriceHistory (clock i) (Company.ticker company) (basePrice company)))"

definition initialize :: "(nat \<Rightarrow> int) \<Rightarrow> Company list \<Rightarrow> Portfolio \<Rightarrow> MarketState" where
  "initialize clock companies' portfolio' =
     (case initLoop clock 0 companies' (Map.empty, Map.empty) of
        (prices', priceHistory') \<Rightarrow>
          \<lparr>companies = companies', prices = prices', priceHistory = priceHistory',
           news = [], portfolio = portfolio'\<rparr>)"

subsection \<open>Price tick\<close>

text \<open>
  One firing of the tick loop. \<open>now\<close> is the clock reading of the firing; \<open>rnd i\<close> and
  \<open>clock i\<close> are the draw and the clock reading inside the call of
  \<^verbatim>\<open>calculateNewPrice\<close> for the company at index \<open>i\<close>. Two reads can miss: a ticker
  without a price makes the source compute on \<^verbatim>\<open>undefined\<close> (the result is \<^verbatim>\<open>NaN\<close>,
  which the reals do not have), and a ticker without a history makes the spread throw.
  Both are faults of the model; neither happens in a state the hook can reach.
\<close>

datatype tick_fault = PriceUndefined | HistoryNotIterable

fun tickLoop ::
  "(nat \<Rightarrow> real) \<Rightarrow> (nat \<Rightarrow> int) \<Rightarrow> MarketState \<Rightarrow> int \<Rightarrow> nat \<Rightarrow> Company list \<Rightarrow>
   (string \<rightharpoonup> real) \<times> (string \<rightharpoonup> PricePoint list) \<Rightarrow>
   tick_fault + (string \<rightharpoonup> real) \<times> (string \<rightharpoonup> PricePoint list)" where
  "tickLoop rnd clock prevState now i [] acc = Inr acc"
| "tickLoop rnd clock prevState now i (company # rest) (newPrices, newPriceHistory) =
     (case prices prevState (Company.ticker company) of
        None \<Rightarrow> Inl PriceUndefined
      | Some currentPrice \<Rightarrow>
          (let newPrice =
                 calculateNewPrice (rnd i) (clock i) currentPrice company (news prevState) 1
           in case priceHistory prevState (Company.ticker company) of
                None \<Rightarrow> Inl HistoryNotIterable
              | Some prevHistory \<Rightarrow>
                  tickLoop rnd clock prevState now (Suc i) rest
                    (newPrices(Company.ticker company \<mapsto> newPrice),
                     newPriceHistory(Company.ticker company \<mapsto>
                       appendHistory prevHistory
                         \<lparr>PricePoint.ticker = Company.ticker company, price = newPrice,
                          timestamp = now\<rparr>))))"

definition tickState ::
  "(nat \<Rightarrow> real) \<Rightarrow> (nat \<Rightarrow> int) \<Rightarrow> int \<Rightarrow> MarketState \<Rightarrow> tick_fault + MarketState" where
  "tickState rnd clock now prevState =
     (case tickLoop rnd clock prevState now 0 (companies prevState) (Map.empty, Map.empty) of
        Inl fault \<Rightarrow> Inl fault
      | Inr (newPrices, newPriceHistory) \<Rightarrow>
          Inr (prevState\<lparr>prices := newPrices, priceHistory := newPriceHistory\<rparr>))"

definition tick ::
  "(nat \<Rightarrow> real) \<Rightarrow> (nat \<Rightarrow> int) \<Rightarrow> int \<Rightarrow> MarketState option \<Rightarrow>
   tick_fault + MarketState option" where
  "tick rnd clock now prevState =
     (case prevState of
        None \<Rightarrow> Inr None
      | Some s \<Rightarrow> map_sum id Some (tickState rnd clock now s))"

subsection \<open>Trade entry points\<close>

text \<open>
  \<^verbatim>\<open>handleBuy\<close> and \<^verbatim>\<open>handleSell\<close>. The ledger functions they call (\<^verbatim>\<open>utils/portfolio\<close>) are
  not among the sources, so they are arguments: any function from the portfolio, the
  ticker, the share count and the price read from the state (\<open>None\<close> when the ticker has
  no price) to a thrown error (\<open>Inl\<close>) or a new portfolio. The result is the error thrown
  to the caller, if any, and the hook's state after the call.
\<close>

definition handleBuy ::
  "(Portfolio \<Rightarrow> string \<Rightarrow> int \<Rightarrow> real option \<Rightarrow> 'e + Portfolio) \<Rightarrow>
   MarketState option \<Rightarrow> string \<Rightarrow> int \<Rightarrow> 'e option \<times> MarketState option" where
  "handleBuy buyStock' state tick' shares' =
     (case state of
        None \<Rightarrow> (None, None)
      | Some s \<Rightarrow>
          (let price' = prices s tick'
           in case buyStock' (portfolio s) tick' shares' price' of
                Inl err \<Rightarrow> (Some err, state)
              | Inr newPortfolio \<Rightarrow> (None, Some (s\<lparr>portfolio := newPortfolio\<rparr>))))"

definition handleSell ::
  "(Portfolio \<Rightarrow> string \<Rightarrow> int \<Rightarrow> real option \<Rightarrow> 'e + Portfolio) \<Rightarrow>
   MarketState option \<Rightarrow> string \<Rightarrow> int \<Rightarrow> 'e option \<times> MarketState option" where
  "handleSell sellStock' state tick' shares' =
     (case state of
        None \<Rightarrow> (None, None)
      | Some s \<Rightarrow>
          (let price' = prices s tick'
           in case sellStock' (portfolio s) tick' shares' price' of
                Inl err \<Rightarrow> (Some err, state)
              | Inr newPortfolio \<Rightarrow> (None, Some (s\<lparr>portfolio := newPortfolio\<rparr>))))"

subsection \<open>States the hook can reach\<close>

text \<open>
  The hook's state starts at \<^verbatim>\<open>initialize\<close> and changes by a tick, by a news batch, or by a
  trade, which replaces the portfolio only.
\<close>

inductive reachable :: "MarketState \<Rightarrow> bool" where
  init: "reachable (initialize clock companies' portfolio')"
| ticked: "reachable s \<Longrightarrow> tickState rnd clock now s = Inr s' \<Longrightarrow> reachable s'"
| newsBatch: "reachable s \<Longrightarrow> reachable (s\<lparr>news := appendNews (news s) newsEvents\<rparr>)"
| traded: "reachable s \<Longrightarrow> reachable (s\<lparr>portfolio := portfolio'\<rparr>)"

subsection \<open>Consistency of a market state\<close>

text \<open>
  Every ticker of the roster has a price and a history of 1 to 100 points, no other ticker
  has either, and the news window holds at most 50 events.
\<close>

definition marketInv :: "MarketState \<Rightarrow> bool" where
  "marketInv s \<longleftrightarrow>
     (\<forall>t. t \<in> Company.ticker ` set (companies s) \<longrightarrow>
        (\<exists>cp h. prices s t = Some cp \<and> priceHistory s t = Some h \<and>
                1 \<le> length h \<and> length h \<le> 100)) \<and>
     (\<forall>t. t \<notin> Company.ticker ` set (companies s) \<longrightarrow>
        prices s t = None \<and> priceHistory s t = None) \<and>
     length (news s) \<le> 50"

text \<open>
  Prices and histories agree: the price of each roster ticker is the price of the last point
  of its history, and each point of the history carries the ticker it is filed under.
\<close>

definition quoteInv :: "MarketState \<Rightarrow> bool" where
  "quoteInv s \<longleftrightarrow>
     (\<forall>c \<in> set (companies s).
        \<exists>h. priceHistory s (Company.ticker c) = Some h \<and> h \<noteq> [] \<and>
            prices s (Company.ticker c) = Some (price (last h)) \<and>
            (\<forall>p \<in> set h. PricePoint.ticker p = Company.ticker c))"

section \<open>Portfolio ledger (utils/portfolio)\<close>

text \<open>
  Modelled from the spec: \<^verbatim>\<open>utils/portfolio\<close> (\<^verbatim>\<open>getInitialPortfolio\<close>, \<^verbatim>\<open>buyStock\<close>,
  \<^verbatim>\<open>sellStock\<close>) is not among the sources; only its call sites in \<^verbatim>\<open>useMarket\<close> are. The
  definitions follow section 4.2 of the specification, each check in the order the
  specification lists it, and the starting cash of 100000 is the one the README documents.
\<close>

datatype ledger_error = InvalidQuantity | InsufficientFunds | InsufficientShares | NoPosition

definition getInitialPortfolio :: Portfolio where
  "getInitialPortfolio = \<lparr>cash = 100000, positions = Map.empty\<rparr>"


definition buyStock :: "Portfolio \<Rightarrow> string \<Rightarrow> int \<Rightarrow> real \<Rightarrow> ledger_error + Portfolio" where
  "buyStock portfolio' tick' shares' price' =
     (if real_of_int shares' * price' > cash portfolio' then Inl InsufficientFunds
      else if shares' \<le> 0 then Inl InvalidQuantity
      else Inr (portfolio'
        \<lparr>cash := cash portfolio' - real_of_int shares' * price',
         positions := (positions portfolio')(tick' \<mapsto>
           (case positions portfolio' tick' of
              None \<Rightarrow> \<lparr>shares = shares', averageCost = price'\<rparr>
            | Some old \<Rightarrow>
                \<lparr>shares = shares old + shares',
                 averageCost =
                   (real_of_int (shares old) * averageCost old + real_of_int shares' * price') /
                   real_of_int (shares old + shares')\<rparr>))\<rparr>))"

definition sellStock :: "Portfolio \<Rightarrow> string \<Rightarrow> int \<Rightarrow> real \<Rightarrow> ledger_error + Portfolio" where
  "sellStock portfolio' tick' shares' price' =
     (if shares' \<le> 0 then Inl InvalidQuantity
      else case positions portfolio' tick' of
        None \<Rightarrow> Inl NoPosition
      | Some held \<Rightarrow>
          if shares' > shares held then Inl InsufficientShares
          else Inr (portfolio'
            \<lparr>cash := cash portfolio' + real_of_int shares' * price',
             positions :=
               (if shares held - shares' = 0
                then (positions portfolio')(tick' := None)
                else (positions portfolio')(tick' \<mapsto> held\<lparr>shares := shares held - shares'\<rparr>))\<rparr>))"

text \<open>
  The invariant of section 3 of the specification: cash is not negative and every position
  present holds a positive number of shares.
\<close>

definition wellFormed :: "Portfolio \<Rightarrow> bool" where
  "wellFormed p \<longleftrightarrow> 0 \<le> cash p \<and> (\<forall>t pos. positions p t = Some pos \<longrightarrow> 0 < shares pos)"

text \<open>
  A sequence of trades, as the entry points run it: a trade the ledger rejects leaves the
  portfolio as it was. A trade is valid when a sale is quoted at a price that is not
  negative; the ledger itself rejects every other invalid request.
\<close>

datatype trade = Buy string int real | Sell string int real

fun applyTrade :: "Portfolio \<Rightarrow> trade \<Rightarrow> ledger_error + Portfolio" where
  "applyTrade p (Buy t n pr) = buyStock p t n pr"
| "applyTrade p (Sell t n pr) = sellStock p t n pr"

definition afterTrade :: "Portfolio \<Rightarrow> trade \<Rightarrow> Portfolio" where
  "afterTrade p tr = (case applyTrade p tr of Inl err \<Rightarrow> p | Inr p' \<Rightarrow> p')"

fun validTrade :: "trade \<Rightarrow> bool" where
  "validTrade (Buy t n pr) = True"
| "validTrade (Sell t n pr) = (0 \<le> pr)"

subsection \<open>The ledger in double arithmetic\<close>

text \<open>
  Modelled from the spec: section 3 of the specification makes cash and prices floats, so the
  ledger of section 4.2 is given once more with every product, sum, difference and quotient
  rounded to a double. \<open>fl\<close> rounds a real to 53 significant bits, to nearest with ties to
  even (\<open>rne\<close> rounds to an integer that way); the exponent range is unbounded, so overflow
  and subnormal numbers are left out. The share counts are integers and stay exact.
\<close>

definition rne :: "real \<Rightarrow> int" where
  "rne q =
     (let f = \<lfloor>q\<rfloor>; d = q - of_int f
      in if d < 1 / 2 then f else if 1 / 2 < d then f + 1 else if even f then f else f + 1)"

definition fl :: "real \<Rightarrow> real" where
  "fl x =
     (if x = 0 then 0
      else (let e = \<lfloor>log 2 \<bar>x\<bar>\<rfloor>; ulp = 2 powr (of_int e - 52)
            in of_int (rne (x / ulp)) * ulp))"

definition buyStockFl :: "Portfolio \<Rightarrow> string \<Rightarrow> int \<Rightarrow> real \<Rightarrow> ledger_error + Portfolio" where
  "buyStockFl portfolio' tick' shares' price' =
     (let cost = fl (real_of_int shares' * price')
      in if cost > cash portfolio' then Inl InsufficientFunds
         else if shares' \<le> 0 then Inl InvalidQuantity
         else Inr (portfolio'
           \<lparr>cash := fl (cash portfolio' - cost),
            positions := (positions portfolio')(tick' \<mapsto>
              (case positions portfolio' tick' of
                 None \<Rightarrow> \<lparr>shares = shares', averageCost = price'\<rparr>
               | Some old \<Rightarrow>
                   \<lparr>shares = shares old + shares',
                    averageCost =
                      fl (fl (fl (real_of_int (shares old) * averageCost old) + cost) /
                          real_of_int (shares old + shares'))\<rparr>))\<rparr>))"

definition sellStockFl :: "Portfolio \<Rightarrow> string \<Rightarrow> int \<Rightarrow> real \<Rightarrow> ledger_error + Portfolio" where
  "sellStockFl portfolio' tick' shares' price' =
     (if shares' \<le> 0 then Inl InvalidQuantity
      else case positions portfolio' tick' of
        None \<Rightarrow> Inl NoPosition
      | Some held \<Rightarrow>
          if shares' > shares held then Inl InsufficientShares
          else Inr (portfolio'
            \<lparr>cash := fl (cash portfolio' + fl (real_of_int shares' * price')),
             positions :=
               (if shares held - shares' = 0
                then (positions portfolio')(tick' := None)
                else (positions portfolio')(tick' \<mapsto> held\<lparr>shares := shares held - shares'\<rparr>))\<rparr>))"

section \<open>News generation (api/generateNews)\<close>

text \<open>
  \<^verbatim>\<open>generateFallbackNews\<close>. \<open>rnd k\<close> is the value of the \<open>k\<close>-th call of \<^verbatim>\<open>Math.random()\<close>;
  an iteration makes four. An index \<^verbatim>\<open>Math.floor(random * length)\<close> outside the array reads
  \<^verbatim>\<open>undefined\<close>: for the company and the template the next property access throws a
  \<^verbatim>\<open>TypeError\<close>, for the body the event would carry no body. Both are faults of the model;
  neither happens for draws in \<open>[0, 1)\<close>.
\<close>

datatype js_fault = TypeError | UndefinedBody

definition positiveTemplates :: "(string \<times> real \<times> real) list" where
  "positiveTemplates =
     [(''Reports Strong Quarterly Earnings, Beats Estimates'', 0.8, 0.7),
      (''Signs Major Partnership Deal Worth Millions'', 0.7, 0.6),
      (''FDA Approves New Product for Market'', 0.9, 0.8),
      (''Analyst Upgrades Stock to Buy Rating'', 0.6, 0.5),
      (''Announces Breakthrough Innovation'', 0.85, 0.75)]"

definition negativeTemplates :: "(string \<times> real \<times> real) list" where
  "negativeTemplates =
     [(''Reports Earnings Miss, Stock Drops'', - 0.7, 0.7),
      (''Faces Regulatory Investigation'', - 0.8, 0.8),
      (''Product Recall Announced'', - 0.9, 0.9),
      (''Key Executive Resigns Unexpectedly'', - 0.6, 0.6),
      (''Loses Major Contract to Competitor'', - 0.75, 0.7)]"

definition bodyTemplates :: "Company \<Rightarrow> string list" where
  "bodyTemplates company =
     [''The '' @ sector company @
        '' sector company's stock is moving in response to market developments.'',
      ''Investors are reacting to breaking news affecting the company's valuation.'',
      ''Market analysts are closely watching the impact of this development.'',
      ''The announcement is expected to significantly influence trading activity.'']"

definition pick :: "real \<Rightarrow> 'a list \<Rightarrow> 'a option" where
  "pick random xs =
     (let i = \<lfloor>random * real (length xs)\<rfloor>
      in if 0 \<le> i \<and> i < int (length xs) then Some (xs ! nat i) else None)"

definition fallbackEvent :: "(nat \<Rightarrow> real) \<Rightarrow> int \<Rightarrow> Company list \<Rightarrow> nat \<Rightarrow> js_fault + NewsEvent" where
  "fallbackEvent rnd now companies' i =
     (case pick (rnd (4 * i)) companies' of
        None \<Rightarrow> Inl TypeError
      | Some company \<Rightarrow>
          (let isPositive = rnd (4 * i + 1) > 0.5;
               templates = (if isPositive then positiveTemplates else negativeTemplates)
           in case pick (rnd (4 * i + 2)) templates of
                None \<Rightarrow> Inl TypeError
              | Some (headline', sentiment', magnitude') \<Rightarrow>
                  (case pick (rnd (4 * i + 3)) (bodyTemplates company) of
                     None \<Rightarrow> Inl UndefinedBody
                   | Some body' \<Rightarrow>
                       Inr \<lparr>NewsEvent.ticker = Company.ticker company,
                            headline = Company.ticker company @ '': '' @ headline',
                            body = body', sentiment = sentiment', magnitude = magnitude',
                            timestamp = now + int i * 100\<rparr>)))"

function fallbackLoop ::
  "(nat \<Rightarrow> real) \<Rightarrow> int \<Rightarrow> Company list \<Rightarrow> int \<Rightarrow> nat \<Rightarrow> NewsEvent list \<Rightarrow>
   js_fault + NewsEvent list" where
  "fallbackLoop rnd now companies' count i news' =
     (if int i < count \<and> i < length companies' then
        (case fallbackEvent rnd now companies' i of
           Inl fault \<Rightarrow> Inl fault
         | Inr event \<Rightarrow> fallbackLoop rnd now companies' count (Suc i) (news' @ [event]))
      else Inr news')"
  by pat_completeness auto
termination
  by (relation "measure (\<lambda>(rnd, now, companies', count, i, news'). length companies' - i)") auto

definition generateFallbackNews ::
  "(nat \<Rightarrow> real) \<Rightarrow> int \<Rightarrow> Company list \<Rightarrow> int \<Rightarrow> js_fault + NewsEvent list" where
  "generateFallbackNews rnd now companies' count = fallbackLoop rnd now companies' count 0 []"

text \<open>\<^verbatim>\<open>slice(0, end)\<close>: a negative \<open>end\<close> counts from the end of the array.\<close>

definition slice0 :: "int \<Rightarrow> 'a list \<Rightarrow> 'a list" where
  "slice0 end xs =
     (if end < 0 then take (nat (int (length xs) + end)) xs else take (nat end) xs)"

text \<open>
  \<^verbatim>\<open>generateNews\<close>. \<open>response\<close> is the outcome of the \<^verbatim>\<open>try\<close> block up to \<^verbatim>\<open>JSON.parse\<close>:
  \<open>Inl\<close> when the call to the text service throws, no JSON array is found or parsing
  throws; \<open>Inr\<close> the parsed array otherwise, whose events get the timestamp \<open>now\<close>.
\<close>

definition generateNews ::
  "(nat \<Rightarrow> real) \<Rightarrow> int \<Rightarrow> 'x + NewsEvent list \<Rightarrow> Company list \<Rightarrow> int \<Rightarrow>
   js_fault + NewsEvent list" where
  "generateNews rnd now response companies' count =
     (case response of
        Inr parsed \<Rightarrow>
          Inr (map (\<lambda>n. n\<lparr>timestamp := now\<rparr>)
                (slice0 count
                  (filter (\<lambda>n. list_ex (\<lambda>c. Company.ticker c = NewsEvent.ticker n) companies')
                     parsed)))
      | Inl error \<Rightarrow> generateFallbackNews rnd now companies' count)"

section \<open>Example data\<close>

definition acme :: Company where
  "acme = \<lparr>Company.ticker = ''ACME'', name = ''Acme Corp'', sector = ''Industrials'',
            description = ''Anvils'', basePrice = 100, volatility = 0.2\<rparr>"

definition volt :: Company where
  "volt = \<lparr>Company.ticker = ''VOLT'', name = ''Volt Energy'', sector = ''Energy'',
            description = ''Batteries'', basePrice = 50, volatility = 1\<rparr>"

definition acmeNews :: "real \<Rightarrow> real \<Rightarrow> int \<Rightarrow> NewsEvent" where
  "acmeNews s m t = \<lparr>NewsEvent.ticker = ''ACME'', headline = ''ACME: news'', body = ''body'',
                      sentiment = s, magnitude = m, timestamp = t\<rparr>"

definition voltNews :: "real \<Rightarrow> real \<Rightarrow> int \<Rightarrow> NewsEvent" where
  "voltNews s m t = \<lparr>NewsEvent.ticker = ''VOLT'', headline = ''VOLT: news'', body = ''body'',
                      sentiment = s, magnitude = m, timestamp = t\<rparr>"

definition demoState :: MarketState where
  "demoState = initialize (\<lambda>i. 0) [acme, volt] getInitialPortfolio"

definition demoPoint :: PricePoint where
  "demoPoint = \<lparr>PricePoint.ticker = ''ACME'', price = 101, timestamp = 4000\<rparr>"

text \<open>
  For the examples only: a ledger function behind an entry point, on the price read from the
  state. The entry points are verified for every ledger function, so what this one does
  without a price does not matter.
\<close>

definition withQuote ::
  "(Portfolio \<Rightarrow> string \<Rightarrow> int \<Rightarrow> real \<Rightarrow> ledger_error + Portfolio) \<Rightarrow>
   Portfolio \<Rightarrow> string \<Rightarrow> int \<Rightarrow> real option \<Rightarrow> ledger_error + Portfolio" where
  "withQuote ledger p t n quote =
     (case quote of None \<Rightarrow> Inl InvalidQuantity | Some pr \<Rightarrow> ledger p t n pr)"

definition demoTrades :: "trade list" where
  "demoTrades = [Buy ''ACME'' 10 100, Sell ''ACME'' 4 110, Sell ''VOLT'' 1 50, Sell ''ACME'' 6 90]"

definition demoHolding :: Portfolio where
  "demoHolding = \<lparr>cash = 99000,
                  positions = [''ACME'' \<mapsto> \<lparr>shares = 10, averageCost = 100\<rparr>]\<rparr>"

definition demoDraw :: "nat \<Rightarrow> real" where
  "demoDraw k = 0.5"

definition demoParsed :: "NewsEvent list" where
  "demoParsed =
     [acmeNews 0.8 0.7 0,
      \<lparr>NewsEvent.ticker = ''NOPE'', headline = ''NOPE: news'', body = ''body'',
       sentiment = 0.5, magnitude = 0.5, timestamp = 0\<rparr>,
      voltNews (- 0.9) 0.9 0,
      acmeNews 0.1 0.3 0]"

definition demoFallback :: "int \<Rightarrow> NewsEvent" where
  "demoFallback t =
     \<lparr>NewsEvent.ticker = ''VOLT'', headline = ''VOLT: Product Recall Announced'',
      body = ''Market analysts are closely watching the impact of this development.'',
      sentiment = - 0.9, magnitude = 0.9, timestamp = t\<rparr>"

text \<open>
  The doubles nearest to 231.6 and 100.55, a portfolio holding the first as cash, and that
  portfolio after buying one share at the second.
\<close>

definition double231_6 :: real where "double231_6 = 8148700575773491 / 2 ^ 45"
definition double100_55 :: real where "double100_55 = 7075577227064115 / 2 ^ 46"

definition floatPortfolio :: Portfolio where
  "floatPortfolio = \<lparr>cash = double231_6, positions = Map.empty\<rparr>"

definition floatHolding :: Portfolio where
  "floatHolding = \<lparr>cash = 2305455981120717 / 2 ^ 44,
                   positions = [''ACME'' \<mapsto> \<lparr>shares = 1, averageCost = double100_55\<rparr>]\<rparr>"

text \<open>
  A company of volatility 0.5, and draws that make the fallback generator pick it three
  times with the template of sentiment 0.9 and magnitude 0.8.
\<close>

definition medi :: Company where
  "medi = \<lparr>Company.ticker = ''MEDI'', name = ''MediCore'', sector = ''Healthcare'',
            description = ''Drugs'', basePrice = 80, volatility = 0.5\<rparr>"

definition stackDraw :: "nat \<Rightarrow> real" where
  "stackDraw k = (if k mod 4 = 0 then 0.7 else if k mod 4 = 1 then 0.9 else 0.5)"

definition stackEvent :: "int \<Rightarrow> NewsEvent" where
  "stackEvent t =
     \<lparr>NewsEvent.ticker = ''MEDI'', headline = ''MEDI: FDA Approves New Product for Market'',
      body = ''Market analysts are closely watching the impact of this development.'',
      sentiment = 0.9, magnitude = 0.8, timestamp = t\<rparr>"

section \<open>Price engine: proofs\<close>

lemma foldl_add_sum_list:
  "foldl (\<lambda>acc x. acc + f x) a xs = (a::real) + (\<Sum>x \<leftarrow> xs. f x)"
  by (induction xs arbitrary: a) simp_all

lemma window_eq: "recentNewsForCompany now company recentNews = spec_window now company recentNews"
  by (simp add: recentNewsForCompany_def spec_window_def)

lemma sentimentImpact_eq_spec:
  "sentimentImpact now company recentNews = spec_sentimentImpact now company recentNews"
proof (cases "spec_window now company recentNews = []")
  case True
  then show ?thesis
    by (simp add: sentimentImpact_def spec_sentimentImpact_def window_eq)
next
  case False
  then show ?thesis
    by (simp add: sentimentImpact_def spec_sentimentImpact_def window_eq foldl_add_sum_list
        Let_def)
qed

lemma drift_affine:
  "drift random timeDelta =
     - spec_driftBound timeDelta + random * (2 * spec_driftBound timeDelta)"
proof -
  define m where "m = max 1 timeDelta"
  have "(random - 0.5) * 0.02 * m = - (0.01 * m) + random * (2 * (0.01 * m))"
    by (simp add: field_simps)
  then show ?thesis by (simp add: drift_def spec_driftBound_def m_def)
qed

lemma driftBound_pos: "0 < spec_driftBound timeDelta"
  by (simp add: spec_driftBound_def max_def)

lemma drift_range:
  assumes "0 \<le> random" "random < 1"
  shows "- spec_driftBound timeDelta \<le> drift random timeDelta"
    and "drift random timeDelta < spec_driftBound timeDelta"
proof -
  let ?B = "spec_driftBound timeDelta"
  have B: "0 < ?B" by (rule driftBound_pos)
  have "0 \<le> random * (2 * ?B)" using assms(1) B by simp
  then show "- ?B \<le> drift random timeDelta" by (simp add: drift_affine)
  have "random * (2 * ?B) < 1 * (2 * ?B)"
    using assms(2) B by (intro mult_strict_right_mono) simp_all
  then show "drift random timeDelta < ?B" by (simp add: drift_affine)
qed

lemma drift_onto:
  assumes "- spec_driftBound timeDelta \<le> d" "d < spec_driftBound timeDelta"
  shows "\<exists>r. 0 \<le> r \<and> r < 1 \<and> drift r timeDelta = d"
proof -
  let ?B = "spec_driftBound timeDelta"
  have B: "0 < ?B" by (rule driftBound_pos)
  define r where "r = (d + ?B) / (2 * ?B)"
  have "0 \<le> r" using assms(1) B by (simp add: r_def)
  moreover have "r < 1" using assms(2) B by (simp add: r_def)
  moreover have "r * (2 * ?B) = d + ?B" using B by (simp add: r_def)
  then have "drift r timeDelta = d" by (simp add: drift_affine)
  ultimately show ?thesis by blast
qed

text \<open>
  C1. The value \<^verbatim>\<open>calculateNewPrice\<close> returns is the floor clamp of
  \<open>currentPrice * (1 + (drift + sentimentImpact) * (1 + volatility * 0.5))\<close>, with the
  sentiment term of the specification; it is that product itself whenever the product is not
  below the floor. The drift term is an affine image of the uniform variate
  \<^verbatim>\<open>Math.random()\<close>: it maps \<open>[0, 1)\<close> into and onto the symmetric interval of half-width
  \<open>0.01 * max 1 timeDelta\<close>, with constant slope, which is what a uniform draw from that
  interval is in a deterministic model.
\<close>

theorem calculateNewPrice_formula:
  "calculateNewPrice random now currentPrice company recentNews timeDelta =
     max (spec_unclamped currentPrice (volatility company) (drift random timeDelta)
            (spec_sentimentImpact now company recentNews)) 0.01
   \<and> (0.01 \<le> spec_unclamped currentPrice (volatility company) (drift random timeDelta)
                 (spec_sentimentImpact now company recentNews) \<longrightarrow>
        calculateNewPrice random now currentPrice company recentNews timeDelta =
          currentPrice * (1 + (drift random timeDelta + spec_sentimentImpact now company recentNews)
                               * (1 + volatility company * 0.5)))
   \<and> drift random timeDelta =
        - spec_driftBound timeDelta + random * (2 * spec_driftBound timeDelta)
   \<and> (0 \<le> random \<and> random < 1 \<longrightarrow>
        - spec_driftBound timeDelta \<le> drift random timeDelta \<and>
        drift random timeDelta < spec_driftBound timeDelta)
   \<and> (\<forall>d. - spec_driftBound timeDelta \<le> d \<and> d < spec_driftBound timeDelta \<longrightarrow>
            (\<exists>r. 0 \<le> r \<and> r < 1 \<and> drift r timeDelta = d))"
proof (intro conjI impI allI)
  show eq: "calculateNewPrice random now currentPrice company recentNews timeDelta =
     max (spec_unclamped currentPrice (volatility company) (drift random timeDelta)
            (spec_sentimentImpact now company recentNews)) 0.01"
    by (simp add: calculateNewPrice_def spec_unclamped_def sentimentImpact_eq_spec Let_def)
  show "calculateNewPrice random now currentPrice company recentNews timeDelta =
          currentPrice * (1 + (drift random timeDelta + spec_sentimentImpact now company recentNews)
                               * (1 + volatility company * 0.5))"
    if "0.01 \<le> spec_unclamped currentPrice (volatility company) (drift random timeDelta)
                 (spec_sentimentImpact now company recentNews)"
    using that unfolding eq by (simp add: spec_unclamped_def max_def)
  show "drift random timeDelta =
        - spec_driftBound timeDelta + random * (2 * spec_driftBound timeDelta)"
    by (rule drift_affine)
  show "- spec_driftBound timeDelta \<le> drift random timeDelta"
    if "0 \<le> random \<and> random < 1" using that drift_range(1) by blast
  show "drift random timeDelta < spec_driftBound timeDelta"
    if "0 \<le> random \<and> random < 1" using that drift_range(2) by blast
  show "\<exists>r. 0 \<le> r \<and> r < 1 \<and> drift r timeDelta = d"
    if "- spec_driftBound timeDelta \<le> d \<and> d < spec_driftBound timeDelta" for d
    using that drift_onto by blast
qed

theorem calculateNewPrice_formula_witness:
  "(0::real) \<le> 0.75 \<and> (0.75::real) < 1 \<and>
   spec_sentimentImpact 200000 acme [acmeNews 0.9 1 150000] = 0.0144 \<and>
   drift 0.75 1 = 0.005 \<and>
   calculateNewPrice 0.75 200000 100 acme [acmeNews 0.9 1 150000] 1 = 102.134"
proof -
  note f = calculateNewPrice_formula [of "0.75" 200000 100 acme "[acmeNews 0.9 1 150000]" 1]
  have s: "spec_sentimentImpact 200000 acme [acmeNews 0.9 1 150000] = 0.0144"
    by (simp add: spec_sentimentImpact_def spec_window_def acme_def acmeNews_def)
  have d: "drift 0.75 1 = 0.005"
    using f by (simp add: spec_driftBound_def)
  have v: "volatility acme = 0.2" by (simp add: acme_def)
  have "calculateNewPrice 0.75 200000 100 acme [acmeNews 0.9 1 150000] 1 = 102.134"
    using f unfolding s d v by (simp add: spec_unclamped_def)
  with s d show ?thesis by simp
qed









lemma weighted_sum_bound:
  "list_all inRange xs \<Longrightarrow> \<bar>\<Sum>n \<leftarrow> xs. sentiment n * magnitude n\<bar> \<le> real (length xs)"
proof (induction xs)
  case Nil
  then show ?case by simp
next
  case (Cons x xs)
  then have ih: "\<bar>\<Sum>n \<leftarrow> xs. sentiment n * magnitude n\<bar> \<le> real (length xs)" by simp
  from Cons.prems have "\<bar>sentiment x\<bar> \<le> 1" "\<bar>magnitude x\<bar> \<le> 1"
    by (auto simp: inRange_def)
  then have "\<bar>sentiment x\<bar> * \<bar>magnitude x\<bar> \<le> 1 * 1"
    by (intro mult_mono) simp_all
  then have "\<bar>sentiment x * magnitude x\<bar> \<le> 1" by (simp add: abs_mult)
  with ih show ?case by simp
qed

lemma list_all_window: "list_all P xs \<Longrightarrow> list_all P (spec_window now c xs)"
  by (simp add: spec_window_def list_all_iff)

text \<open>
  What the sentiment term does satisfy: it is \<open>volatility * 0.08 * \<Sum>(sentiment * magnitude)\<close>
  over the events of the company's ticker inside the 120 second window, 0 when there are
  none, and for events in range at most 0.08 in absolute value when at most one event
  matches and \<open>|volatility| \<le> 1\<close>.
\<close>

lemma sentimentImpact_single_event:
  "sentimentImpact now company recentNews =
     volatility company * 0.08 *
       (\<Sum>n \<leftarrow> spec_window now company recentNews. sentiment n * magnitude n)
   \<and> (spec_window now company recentNews = [] \<longrightarrow> sentimentImpact now company recentNews = 0)
   \<and> (list_all inRange recentNews \<and> \<bar>volatility company\<bar> \<le> 1 \<and>
        length (spec_window now company recentNews) \<le> 1 \<longrightarrow>
        \<bar>sentimentImpact now company recentNews\<bar> \<le> 0.08)"
proof -
  let ?w = "spec_window now company recentNews"
  let ?S = "\<Sum>n \<leftarrow> ?w. sentiment n * magnitude n"
  have eq: "sentimentImpact now company recentNews = volatility company * 0.08 * ?S"
    by (simp add: sentimentImpact_eq_spec spec_sentimentImpact_def)
  have none: "sentimentImpact now company recentNews = 0" if "?w = []"
    using that by (simp add: eq)
  have single: "\<bar>sentimentImpact now company recentNews\<bar> \<le> 0.08"
    if h: "list_all inRange recentNews \<and> \<bar>volatility company\<bar> \<le> 1 \<and> length ?w \<le> 1"
  proof -
    have "\<bar>?S\<bar> \<le> real (length ?w)"
      using h by (intro weighted_sum_bound list_all_window) simp
    also have "\<dots> \<le> 1" using h by simp
    finally have "\<bar>volatility company\<bar> * \<bar>?S\<bar> \<le> 1 * 1"
      using h by (intro mult_mono) simp_all
    then have "0.08 * (\<bar>volatility company\<bar> * \<bar>?S\<bar>) \<le> 0.08" by simp
    then show ?thesis by (simp add: eq abs_mult mult_ac)
  qed
  from eq none single show ?thesis by blast
qed

section \<open>Bounded buffers: proofs\<close>

lemma keep_last_append:
  "drop (length (drop (length xs - k) xs @ ys) - k) (drop (length xs - k) xs @ ys) =
   drop (length (xs @ ys) - k) (xs @ ys)"
proof (cases "length xs \<le> k")
  case True
  then show ?thesis by simp
next
  case False
  then have "k < length xs" by simp
  then show ?thesis by (simp add: add.commute)
qed

lemma appendHistory_last100:
  assumes "length h \<le> 100"
  shows "appendHistory h p = drop (length (h @ [p]) - 100) (h @ [p])"
proof (cases "length h = 100")
  case True
  then have "length (h @ [p]) - 100 = Suc 0" by simp
  moreover have "tl (h @ [p]) = drop (Suc 0) (h @ [p])" by (simp only: drop_Suc drop_0)
  ultimately show ?thesis using True by (simp add: appendHistory_def Let_def del: drop_append)
next
  case False
  with assms have "length h < 100" by simp
  then show ?thesis by (simp add: appendHistory_def Let_def)
qed

lemma appendHistory_length:
  "length h \<le> 100 \<Longrightarrow> length (appendHistory h p) = min 100 (Suc (length h))"
  by (simp add: appendHistory_def Let_def)

lemma appendHistory_last: "last (appendHistory h p) = p"
  by (cases h) (simp_all add: appendHistory_def Let_def last_tl)

lemma last100_step:
  assumes "length h \<le> 100"
  shows "foldl appendHistory h ps = drop (length (h @ ps) - 100) (h @ ps)"
  using assms
proof (induction ps rule: rev_induct)
  case Nil
  then show ?case by simp
next
  case (snoc p ps)
  let ?L = "drop (length (h @ ps) - 100) (h @ ps)"
  have L: "foldl appendHistory h ps = ?L" using snoc by simp
  have len: "length ?L \<le> 100" by simp
  have "foldl appendHistory h (ps @ [p]) = appendHistory ?L p" by (simp add: L)
  also have "\<dots> = drop (length (?L @ [p]) - 100) (?L @ [p])"
    by (rule appendHistory_last100 [OF len])
  also have "\<dots> = drop (length ((h @ ps) @ [p]) - 100) ((h @ ps) @ [p])"
    by (rule keep_last_append)
  finally show ?case by simp
qed

lemma appendNews_last50:
  "appendNews w evs = drop (length (w @ evs) - 50) (w @ evs)"
  by (simp add: appendNews_def Let_def)

lemma appendNews_length: "length (appendNews w evs) = min 50 (length w + length evs)"
  by (auto simp: appendNews_def Let_def)

lemma last50_step:
  assumes "length w \<le> 50"
  shows "foldl appendNews w batches = drop (length (w @ concat batches) - 50) (w @ concat batches)"
  using assms
proof (induction batches rule: rev_induct)
  case Nil
  then show ?case by simp
next
  case (snoc b bs)
  let ?all = "w @ concat bs"
  have "foldl appendNews w (bs @ [b]) = appendNews (drop (length ?all - 50) ?all) b"
    using snoc by simp
  also have "\<dots> = drop (length (?all @ b) - 50) (?all @ b)"
    unfolding appendNews_last50 by (rule keep_last_append)
  finally show ?case by simp
qed

section \<open>Orchestrator loops: proofs\<close>

lemma initLoop_pointwise:
  assumes "initLoop clock i cs (np, nh) = (np', nh')"
    and "R (np t) (nh t)"
    and "\<And>j. j < length cs \<Longrightarrow> Company.ticker (cs ! j) = t \<Longrightarrow>
           R (Some (basePrice (cs ! j)))
             (Some (initializePriceHistory (clock (i + j)) t (basePrice (cs ! j))))"
  shows "R (np' t) (nh' t)"
  using assms
proof (induction cs arbitrary: i np nh)
  case Nil
  then show ?case by simp
next
  case (Cons c cs)
  let ?np = "np(Company.ticker c \<mapsto> basePrice c)"
  let ?nh = "nh(Company.ticker c \<mapsto>
               initializePriceHistory (clock i) (Company.ticker c) (basePrice c))"
  have run: "initLoop clock (Suc i) cs (?np, ?nh) = (np', nh')"
    using Cons.prems(1) by simp
  have here: "R (?np t) (?nh t)"
  proof (cases "Company.ticker c = t")
    case True
    then show ?thesis using Cons.prems(3) [of 0] by simp
  next
    case False
    then show ?thesis using Cons.prems(2) by simp
  qed
  have later: "R (Some (basePrice (cs ! j)))
                 (Some (initializePriceHistory (clock (Suc i + j)) t (basePrice (cs ! j))))"
    if "j < length cs" "Company.ticker (cs ! j) = t" for j
    using Cons.prems(3) [of "Suc j"] that by simp
  show ?case by (rule Cons.IH [OF run here later])
qed

lemma initLoop_member:
  assumes "initLoop clock i cs (np, nh) = (np', nh')"
    and "t \<in> Company.ticker ` set cs"
    and "\<And>j. j < length cs \<Longrightarrow> Company.ticker (cs ! j) = t \<Longrightarrow>
           R (Some (basePrice (cs ! j)))
             (Some (initializePriceHistory (clock (i + j)) t (basePrice (cs ! j))))"
  shows "R (np' t) (nh' t)"
  using assms
proof (induction cs arbitrary: i np nh)
  case Nil
  then show ?case by simp
next
  case (Cons c cs)
  let ?np = "np(Company.ticker c \<mapsto> basePrice c)"
  let ?nh = "nh(Company.ticker c \<mapsto>
               initializePriceHistory (clock i) (Company.ticker c) (basePrice c))"
  have run: "initLoop clock (Suc i) cs (?np, ?nh) = (np', nh')"
    using Cons.prems(1) by simp
  have later: "R (Some (basePrice (cs ! j)))
                 (Some (initializePriceHistory (clock (Suc i + j)) t (basePrice (cs ! j))))"
    if "j < length cs" "Company.ticker (cs ! j) = t" for j
    using Cons.prems(3) [of "Suc j"] that by simp
  show ?case
  proof (cases "t \<in> Company.ticker ` set cs")
    case True
    show ?thesis by (rule Cons.IH [OF run True later])
  next
    case False
    with Cons.prems(2) have "Company.ticker c = t" by auto
    then have here: "R (?np t) (?nh t)" using Cons.prems(3) [of 0] by simp
    show ?thesis by (rule initLoop_pointwise [OF run here later])
  qed
qed

lemma tickLoop_Cons_Inr:
  assumes "tickLoop rnd clock s now i (c # cs) (np, nh) = Inr r"
  obtains cp h0 where "prices s (Company.ticker c) = Some cp"
    and "priceHistory s (Company.ticker c) = Some h0"
    and "tickLoop rnd clock s now (Suc i) cs
           (np(Company.ticker c \<mapsto> calculateNewPrice (rnd i) (clock i) cp c (news s) 1),
            nh(Company.ticker c \<mapsto> appendHistory h0
                 \<lparr>PricePoint.ticker = Company.ticker c,
                  price = calculateNewPrice (rnd i) (clock i) cp c (news s) 1,
                  timestamp = now\<rparr>)) = Inr r"
  using assms by (auto simp: Let_def split: option.splits)

lemma tickLoop_pointwise:
  assumes "tickLoop rnd clock s now i cs (np, nh) = Inr (np', nh')"
    and "R (np t) (nh t)"
    and "\<And>j cp h0. j < length cs \<Longrightarrow> Company.ticker (cs ! j) = t \<Longrightarrow>
           prices s t = Some cp \<Longrightarrow> priceHistory s t = Some h0 \<Longrightarrow>
           R (Some (calculateNewPrice (rnd (i + j)) (clock (i + j)) cp (cs ! j) (news s) 1))
             (Some (appendHistory h0
                \<lparr>PricePoint.ticker = t,
                 price = calculateNewPrice (rnd (i + j)) (clock (i + j)) cp (cs ! j) (news s) 1,
                 timestamp = now\<rparr>))"
  shows "R (np' t) (nh' t)"
  using assms
proof (induction cs arbitrary: i np nh)
  case Nil
  then show ?case by simp
next
  case (Cons c cs)
  from Cons.prems(1) obtain cp h0 where
    cp: "prices s (Company.ticker c) = Some cp" and
    h0: "priceHistory s (Company.ticker c) = Some h0" and
    run: "tickLoop rnd clock s now (Suc i) cs
           (np(Company.ticker c \<mapsto> calculateNewPrice (rnd i) (clock i) cp c (news s) 1),
            nh(Company.ticker c \<mapsto> appendHistory h0
                 \<lparr>PricePoint.ticker = Company.ticker c,
                  price = calculateNewPrice (rnd i) (clock i) cp c (news s) 1,
                  timestamp = now\<rparr>)) = Inr (np', nh')"
    by (rule tickLoop_Cons_Inr)
  let ?v = "calculateNewPrice (rnd i) (clock i) cp c (news s) 1"
  let ?np = "np(Company.ticker c \<mapsto> ?v)"
  let ?nh = "nh(Company.ticker c \<mapsto> appendHistory h0
                 \<lparr>PricePoint.ticker = Company.ticker c, price = ?v, timestamp = now\<rparr>)"
  have here: "R (?np t) (?nh t)"
  proof (cases "Company.ticker c = t")
    case True
    then show ?thesis using Cons.prems(3) [of 0 cp h0] cp h0 by simp
  next
    case False
    then show ?thesis using Cons.prems(2) by simp
  qed
  have later: "R (Some (calculateNewPrice (rnd (Suc i + j)) (clock (Suc i + j)) cp' (cs ! j) (news s) 1))
             (Some (appendHistory h0'
                \<lparr>PricePoint.ticker = t,
                 price = calculateNewPrice (rnd (Suc i + j)) (clock (Suc i + j)) cp' (cs ! j) (news s) 1,
                 timestamp = now\<rparr>))"
    if "j < length cs" "Company.ticker (cs ! j) = t" "prices s t = Some cp'"
       "priceHistory s t = Some h0'" for j cp' h0'
    using Cons.prems(3) [of "Suc j" cp' h0'] that by simp
  show ?case by (rule Cons.IH [OF run here later])
qed

lemma tickLoop_member:
  assumes "tickLoop rnd clock s now i cs (np, nh) = Inr (np', nh')"
    and "t \<in> Company.ticker ` set cs"
    and "\<And>j cp h0. j < length cs \<Longrightarrow> Company.ticker (cs ! j) = t \<Longrightarrow>
           prices s t = Some cp \<Longrightarrow> priceHistory s t = Some h0 \<Longrightarrow>
           R (Some (calculateNewPrice (rnd (i + j)) (clock (i + j)) cp (cs ! j) (news s) 1))
             (Some (appendHistory h0
                \<lparr>PricePoint.ticker = t,
                 price = calculateNewPrice (rnd (i + j)) (clock (i + j)) cp (cs ! j) (news s) 1,
                 timestamp = now\<rparr>))"
  shows "R (np' t) (nh' t)"
  using assms
proof (induction cs arbitrary: i np nh)
  case Nil
  then show ?case by simp
next
  case (Cons c cs)
  from Cons.prems(1) obtain cp h0 where
    cp: "prices s (Company.ticker c) = Some cp" and
    h0: "priceHistory s (Company.ticker c) = Some h0" and
    run: "tickLoop rnd clock s now (Suc i) cs
           (np(Company.ticker c \<mapsto> calculateNewPrice (rnd i) (clock i) cp c (news s) 1),
            nh(Company.ticker c \<mapsto> appendHistory h0
                 \<lparr>PricePoint.ticker = Company.ticker c,
                  price = calculateNewPrice (rnd i) (clock i) cp c (news s) 1,
                  timestamp = now\<rparr>)) = Inr (np', nh')"
    by (rule tickLoop_Cons_Inr)
  let ?v = "calculateNewPrice (rnd i) (clock i) cp c (news s) 1"
  let ?np = "np(Company.ticker c \<mapsto> ?v)"
  let ?nh = "nh(Company.ticker c \<mapsto> appendHistory h0
                 \<lparr>PricePoint.ticker = Company.ticker c, price = ?v, timestamp = now\<rparr>)"
  have later: "R (Some (calculateNewPrice (rnd (Suc i + j)) (clock (Suc i + j)) cp' (cs ! j) (news s) 1))
             (Some (appendHistory h0'
                \<lparr>PricePoint.ticker = t,
                 price = calculateNewPrice (rnd (Suc i + j)) (clock (Suc i + j)) cp' (cs ! j) (news s) 1,
                 timestamp = now\<rparr>))"
    if "j < length cs" "Company.ticker (cs ! j) = t" "prices s t = Some cp'"
       "priceHistory s t = Some h0'" for j cp' h0'
    using Cons.prems(3) [of "Suc j" cp' h0'] that by simp
  show ?case
  proof (cases "t \<in> Company.ticker ` set cs")
    case True
    show ?thesis by (rule Cons.IH [OF run True later])
  next
    case False
    with Cons.prems(2) have eq: "Company.ticker c = t" by auto
    have here: "R (?np t) (?nh t)"
      using Cons.prems(3) [of 0 cp h0] cp h0 eq by simp
    show ?thesis by (rule tickLoop_pointwise [OF run here later])
  qed
qed

lemma tickLoop_total:
  assumes "\<And>c. c \<in> set cs \<Longrightarrow>
             prices s (Company.ticker c) \<noteq> None \<and> priceHistory s (Company.ticker c) \<noteq> None"
  shows "\<exists>r. tickLoop rnd clock s now i cs acc = Inr r"
  using assms
proof (induction cs arbitrary: i acc)
  case Nil
  then show ?case by simp
next
  case (Cons c cs)
  obtain np nh where acc: "acc = (np, nh)" by (cases acc)
  from Cons.prems [of c] obtain cp h0 where
    "prices s (Company.ticker c) = Some cp" "priceHistory s (Company.ticker c) = Some h0"
    by auto
  moreover have "\<exists>r. tickLoop rnd clock s now (Suc i) cs acc' = Inr r" for acc'
    using Cons.prems by (intro Cons.IH) simp
  ultimately show ?case by (simp add: acc Let_def)
qed

lemma appendHistory_not_Nil: "appendHistory h p \<noteq> []"
proof (cases "length (h @ [p]) > 100")
  case True
  then have "h \<noteq> []" by auto
  then have "tl (h @ [p]) = tl h @ [p]" by simp
  then show ?thesis using True by (simp add: appendHistory_def Let_def)
next
  case False
  then show ?thesis by (simp add: appendHistory_def Let_def)
qed

lemma initialize_fields:
  "companies (initialize clock cs pf) = cs"
  "news (initialize clock cs pf) = []"
  "portfolio (initialize clock cs pf) = pf"
  by (simp_all add: initialize_def split: prod.splits)

lemma initialize_at:
  assumes "t \<in> Company.ticker ` set cs"
  shows "\<exists>j<length cs. Company.ticker (cs ! j) = t \<and>
           prices (initialize clock cs pf) t = Some (basePrice (cs ! j)) \<and>
           priceHistory (initialize clock cs pf) t =
             Some (initializePriceHistory (clock j) t (basePrice (cs ! j)))"
proof -
  obtain np nh where run: "initLoop clock 0 cs (Map.empty, Map.empty) = (np, nh)"
    by (cases "initLoop clock 0 cs (Map.empty, Map.empty)")
  define R where "R a b \<longleftrightarrow> (\<exists>j<length cs. Company.ticker (cs ! j) = t \<and>
      a = Some (basePrice (cs ! j)) \<and>
      b = Some (initializePriceHistory (clock j) t (basePrice (cs ! j))))" for a b
  have "R (np t) (nh t)"
  proof (rule initLoop_member [OF run assms])
    fix j assume "j < length cs" "Company.ticker (cs ! j) = t"
    then show "R (Some (basePrice (cs ! j)))
                 (Some (initializePriceHistory (clock (0 + j)) t (basePrice (cs ! j))))"
      unfolding R_def by auto
  qed
  then show ?thesis by (simp add: R_def initialize_def run)
qed

lemma initialize_outside:
  assumes "t \<notin> Company.ticker ` set cs"
  shows "prices (initialize clock cs pf) t = None \<and> priceHistory (initialize clock cs pf) t = None"
proof -
  obtain np nh where run: "initLoop clock 0 cs (Map.empty, Map.empty) = (np, nh)"
    by (cases "initLoop clock 0 cs (Map.empty, Map.empty)")
  have "(\<lambda>a b. a = None \<and> b = None) (np t) (nh t)"
  proof (rule initLoop_pointwise [OF run])
    show "Map.empty t = None \<and> Map.empty t = None" by simp
  next
    fix j assume "j < length cs" "Company.ticker (cs ! j) = t"
    then have "t \<in> Company.ticker ` set cs" by (metis imageI nth_mem)
    with assms show "Some (basePrice (cs ! j)) = None \<and>
        Some (initializePriceHistory (clock (0 + j)) t (basePrice (cs ! j))) = None"
      by simp
  qed
  then show ?thesis by (simp add: initialize_def run)
qed

lemma tickState_Inr:
  assumes "tickState rnd clock now s = Inr s'"
  obtains np nh where
    "tickLoop rnd clock s now 0 (companies s) (Map.empty, Map.empty) = Inr (np, nh)"
    "s' = s\<lparr>prices := np, priceHistory := nh\<rparr>"
  using assms by (auto simp: tickState_def split: sum.splits)

lemma tickState_fields:
  assumes "tickState rnd clock now s = Inr s'"
  shows "companies s' = companies s" "news s' = news s" "portfolio s' = portfolio s"
  using assms by (auto elim!: tickState_Inr)

lemma tickState_at:
  assumes "tickState rnd clock now s = Inr s'" and "t \<in> Company.ticker ` set (companies s)"
  shows "\<exists>j cp h0. j < length (companies s) \<and> Company.ticker (companies s ! j) = t \<and>
           prices s t = Some cp \<and> priceHistory s t = Some h0 \<and>
           prices s' t =
             Some (calculateNewPrice (rnd j) (clock j) cp (companies s ! j) (news s) 1) \<and>
           priceHistory s' t =
             Some (appendHistory h0
               \<lparr>PricePoint.ticker = t,
                price = calculateNewPrice (rnd j) (clock j) cp (companies s ! j) (news s) 1,
                timestamp = now\<rparr>)"
proof -
  from assms(1) obtain np nh where
    run: "tickLoop rnd clock s now 0 (companies s) (Map.empty, Map.empty) = Inr (np, nh)" and
    s': "s' = s\<lparr>prices := np, priceHistory := nh\<rparr>"
    by (rule tickState_Inr)
  define R where "R a b \<longleftrightarrow> (\<exists>j cp h0. j < length (companies s) \<and>
      Company.ticker (companies s ! j) = t \<and> prices s t = Some cp \<and> priceHistory s t = Some h0 \<and>
      a = Some (calculateNewPrice (rnd j) (clock j) cp (companies s ! j) (news s) 1) \<and>
      b = Some (appendHistory h0
               \<lparr>PricePoint.ticker = t,
                price = calculateNewPrice (rnd j) (clock j) cp (companies s ! j) (news s) 1,
                timestamp = now\<rparr>))" for a b
  have "R (np t) (nh t)"
  proof (rule tickLoop_member [OF run assms(2)])
    fix j cp h0
    assume "j < length (companies s)" "Company.ticker (companies s ! j) = t"
      "prices s t = Some cp" "priceHistory s t = Some h0"
    then show "R (Some (calculateNewPrice (rnd (0 + j)) (clock (0 + j)) cp (companies s ! j) (news s) 1))
       (Some (appendHistory h0
          \<lparr>PricePoint.ticker = t,
           price = calculateNewPrice (rnd (0 + j)) (clock (0 + j)) cp (companies s ! j) (news s) 1,
           timestamp = now\<rparr>))"
      unfolding R_def by auto
  qed
  then show ?thesis by (simp add: R_def s')
qed

lemma tickState_outside:
  assumes "tickState rnd clock now s = Inr s'" and "t \<notin> Company.ticker ` set (companies s)"
  shows "prices s' t = None \<and> priceHistory s' t = None"
proof -
  from assms(1) obtain np nh where
    run: "tickLoop rnd clock s now 0 (companies s) (Map.empty, Map.empty) = Inr (np, nh)" and
    s': "s' = s\<lparr>prices := np, priceHistory := nh\<rparr>"
    by (rule tickState_Inr)
  have "(\<lambda>a b. a = None \<and> b = None) (np t) (nh t)"
  proof (rule tickLoop_pointwise [OF run])
    show "Map.empty t = None \<and> Map.empty t = None" by simp
  next
    fix j cp h0 assume "j < length (companies s)" "Company.ticker (companies s ! j) = t"
    then have "t \<in> Company.ticker ` set (companies s)" by (metis imageI nth_mem)
    with assms(2) show
      "Some (calculateNewPrice (rnd (0 + j)) (clock (0 + j)) cp (companies s ! j) (news s) 1) = None \<and>
       Some (appendHistory h0
          \<lparr>PricePoint.ticker = t,
           price = calculateNewPrice (rnd (0 + j)) (clock (0 + j)) cp (companies s ! j) (news s) 1,
           timestamp = now\<rparr>) = None"
      by simp
  qed
  then show ?thesis by (simp add: s')
qed

lemma tickState_total:
  assumes "\<And>c. c \<in> set (companies s) \<Longrightarrow>
             prices s (Company.ticker c) \<noteq> None \<and> priceHistory s (Company.ticker c) \<noteq> None"
  shows "\<exists>s'. tickState rnd clock now s = Inr s'"
proof -
  obtain r where "tickLoop rnd clock s now 0 (companies s) (Map.empty, Map.empty) = Inr r"
    using tickLoop_total [OF assms] by blast
  then show ?thesis by (cases r) (simp add: tickState_def)
qed

lemma marketInv_initialize: "marketInv (initialize clock cs pf)"
proof -
  have "\<exists>cp h. prices (initialize clock cs pf) t = Some cp \<and>
               priceHistory (initialize clock cs pf) t = Some h \<and> 1 \<le> length h \<and> length h \<le> 100"
    if "t \<in> Company.ticker ` set cs" for t
    using initialize_at [OF that, of clock pf] by (auto simp: initializePriceHistory_def)
  moreover have "prices (initialize clock cs pf) t = None \<and>
                 priceHistory (initialize clock cs pf) t = None"
    if "t \<notin> Company.ticker ` set cs" for t
    using that by (rule initialize_outside)
  ultimately show ?thesis
    unfolding marketInv_def initialize_fields by simp
qed

lemma marketInv_tick:
  assumes "marketInv s" and "tickState rnd clock now s = Inr s'"
  shows "marketInv s'"
proof -
  have "\<exists>cp h. prices s' t = Some cp \<and> priceHistory s' t = Some h \<and>
                1 \<le> length h \<and> length h \<le> 100"
    if t: "t \<in> Company.ticker ` set (companies s)" for t
  proof -
    from assms(1) t obtain h where h: "priceHistory s t = Some h" "length h \<le> 100"
      unfolding marketInv_def by blast
    from tickState_at [OF assms(2) t] h show ?thesis
      by (auto simp: appendHistory_length)
  qed
  moreover have "prices s' t = None \<and> priceHistory s' t = None"
    if "t \<notin> Company.ticker ` set (companies s)" for t
    using that by (rule tickState_outside [OF assms(2)])
  moreover have "length (news s) \<le> 50" using assms(1) by (simp add: marketInv_def)
  ultimately show ?thesis
    unfolding marketInv_def tickState_fields [OF assms(2)] by simp
qed

lemma reachable_marketInv: "reachable s \<Longrightarrow> marketInv s"
proof (induction rule: reachable.induct)
  case (init clock companies' portfolio')
  show ?case by (rule marketInv_initialize)
next
  case (ticked s rnd clock now s')
  then show ?case by (blast intro: marketInv_tick)
next
  case (newsBatch s newsEvents)
  then show ?case by (simp add: marketInv_def appendNews_length)
next
  case (traded s portfolio')
  then show ?case by (simp add: marketInv_def)
qed

lemma reachable_tick_total:
  assumes "reachable s"
  shows "\<exists>s'. tickState rnd clock now s = Inr s'"
proof (rule tickState_total)
  fix c assume "c \<in> set (companies s)"
  then have "Company.ticker c \<in> Company.ticker ` set (companies s)" by simp
  with reachable_marketInv [OF assms]
  show "prices s (Company.ticker c) \<noteq> None \<and> priceHistory s (Company.ticker c) \<noteq> None"
    unfolding marketInv_def by fastforce
qed

text \<open>
  The entry points of the hook stay inside the reachable states: a firing of the tick, a
  news update, and a trade through either entry point with any ledger function.
\<close>

lemma reachable_entry_points:
  assumes "reachable s"
  shows "tick rnd clock now (Some s) = Inr (Some s') \<Longrightarrow> reachable s'"
    and "updateNews (Some s) evs = Some s' \<Longrightarrow> reachable s'"
    and "handleBuy ledger (Some s) t n = (e, Some s') \<Longrightarrow> reachable s'"
    and "handleSell ledger (Some s) t n = (e, Some s') \<Longrightarrow> reachable s'"
proof -
  show "reachable s'" if "tick rnd clock now (Some s) = Inr (Some s')"
  proof -
    from that have "tickState rnd clock now s = Inr s'"
      by (cases "tickState rnd clock now s") (simp_all add: tick_def)
    with assms show ?thesis by (rule reachable.ticked)
  qed
  show "reachable s'" if "updateNews (Some s) evs = Some s'"
  proof (cases "evs = []")
    case True
    with that assms show ?thesis by (simp add: updateNews_def)
  next
    case False
    with that have "s' = s\<lparr>news := appendNews (news s) evs\<rparr>"
      by (simp add: updateNews_def)
    with assms show ?thesis by (simp add: reachable.newsBatch)
  qed
  show "reachable s'" if "handleBuy ledger (Some s) t n = (e, Some s')"
    using that assms
    by (auto simp: handleBuy_def Let_def split: sum.splits intro: reachable.traded)
  show "reachable s'" if "handleSell ledger (Some s) t n = (e, Some s')"
    using that assms
    by (auto simp: handleSell_def Let_def split: sum.splits intro: reachable.traded)
qed

lemma reachable_histories:
  assumes "reachable s" and "priceHistory s t = Some h"
  shows "1 \<le> length h \<and> length h \<le> 100"
proof (cases "t \<in> Company.ticker ` set (companies s)")
  case True
  with reachable_marketInv [OF assms(1)] assms(2) show ?thesis
    unfolding marketInv_def by fastforce
next
  case False
  with reachable_marketInv [OF assms(1)] assms(2) show ?thesis
    unfolding marketInv_def by fastforce
qed

lemma initialize_distinct:
  assumes "distinct (map Company.ticker cs)" and "i < length cs"
  shows "prices (initialize clock cs pf) (Company.ticker (cs ! i)) = Some (basePrice (cs ! i))"
    and "priceHistory (initialize clock cs pf) (Company.ticker (cs ! i)) =
           Some (initializePriceHistory (clock i) (Company.ticker (cs ! i)) (basePrice (cs ! i)))"
proof -
  have "Company.ticker (cs ! i) \<in> Company.ticker ` set cs" using assms(2) by simp
  from initialize_at [OF this, of clock pf] obtain j where
    j: "j < length cs" "Company.ticker (cs ! j) = Company.ticker (cs ! i)"
       "prices (initialize clock cs pf) (Company.ticker (cs ! i)) = Some (basePrice (cs ! j))"
       "priceHistory (initialize clock cs pf) (Company.ticker (cs ! i)) =
          Some (initializePriceHistory (clock j) (Company.ticker (cs ! i)) (basePrice (cs ! j)))"
    by blast
  have "(map Company.ticker cs ! j = map Company.ticker cs ! i) = (j = i)"
    using assms j(1) by (intro nth_eq_iff_index_eq) simp_all
  then have "j = i" using j(1,2) assms(2) by simp
  with j(3,4) show
    "prices (initialize clock cs pf) (Company.ticker (cs ! i)) = Some (basePrice (cs ! i))"
    "priceHistory (initialize clock cs pf) (Company.ticker (cs ! i)) =
           Some (initializePriceHistory (clock i) (Company.ticker (cs ! i)) (basePrice (cs ! i)))"
    by simp_all
qed

text \<open>
  C4. In every state the hook can reach, every price history holds between 1 and 100 points
  and the news window at most 50 events. Appending any sequence of points to the buffer
  \<^verbatim>\<open>initializePriceHistory\<close> builds leaves the last 100 of all points, in arrival order;
  appending any sequence of batches to the empty news window leaves the last 50 of all
  events, in arrival order; an append that would exceed the capacity ends at exactly the
  capacity. The buffer \<^verbatim>\<open>initializePriceHistory\<close> builds is one point at the base price, and
  that is the history \<^verbatim>\<open>initialize\<close> gives each ticker of a roster of distinct tickers.
\<close>

theorem buffers_bounded:
  "(reachable s \<longrightarrow>
      length (news s) \<le> 50 \<and>
      (\<forall>k h. priceHistory s k = Some h \<longrightarrow> 1 \<le> length h \<and> length h \<le> 100))
   \<and> foldl appendHistory (initializePriceHistory now t bp) ps =
       drop (Suc (length ps) - 100) (initializePriceHistory now t bp @ ps)
   \<and> length (foldl appendHistory (initializePriceHistory now t bp) ps) = min 100 (Suc (length ps))
   \<and> (length h \<le> 100 \<longrightarrow>
        appendHistory h p = drop (Suc (length h) - 100) (h @ [p]) \<and>
        length (appendHistory h p) = min 100 (Suc (length h)))
   \<and> foldl appendNews [] batches = drop (length (concat batches) - 50) (concat batches)
   \<and> length (foldl appendNews [] batches) = min 50 (length (concat batches))
   \<and> appendNews w evs = drop (length w + length evs - 50) (w @ evs)
   \<and> length (appendNews w evs) = min 50 (length w + length evs)
   \<and> initializePriceHistory now t bp = [\<lparr>PricePoint.ticker = t, price = bp, timestamp = now\<rparr>]
   \<and> (distinct (map Company.ticker cs) \<longrightarrow>
        (\<forall>i<length cs. priceHistory (initialize clock cs pf) (Company.ticker (cs ! i)) =
           Some [\<lparr>PricePoint.ticker = Company.ticker (cs ! i), price = basePrice (cs ! i),
                  timestamp = clock i\<rparr>]))"
proof -
  let ?init = "initializePriceHistory now t bp"
  have len1: "length ?init \<le> 100" by (simp add: initializePriceHistory_def)
  have a: "length (news s) \<le> 50 \<and>
      (\<forall>k h. priceHistory s k = Some h \<longrightarrow> 1 \<le> length h \<and> length h \<le> 100)" if "reachable s"
    using reachable_marketInv [OF that] reachable_histories [OF that]
    by (simp add: marketInv_def)
  have b: "foldl appendHistory ?init ps = drop (Suc (length ps) - 100) (?init @ ps)"
    using last100_step [OF len1, of ps] by (simp add: initializePriceHistory_def)
  have c: "length (foldl appendHistory ?init ps) = min 100 (Suc (length ps))"
    unfolding b by (simp add: initializePriceHistory_def)
  have d: "appendHistory h p = drop (Suc (length h) - 100) (h @ [p]) \<and>
        length (appendHistory h p) = min 100 (Suc (length h))" if "length h \<le> 100"
    using appendHistory_last100 [OF that, of p] appendHistory_length [OF that, of p] by simp
  have e: "foldl appendNews [] batches = drop (length (concat batches) - 50) (concat batches)"
    using last50_step [of "[]" batches] by simp
  have f: "length (foldl appendNews [] batches) = min 50 (length (concat batches))"
    unfolding e by simp
  have g: "appendNews w evs = drop (length w + length evs - 50) (w @ evs)"
    using appendNews_last50 [of w evs] by simp
  have i: "initializePriceHistory now t bp = [\<lparr>PricePoint.ticker = t, price = bp, timestamp = now\<rparr>]"
    by (simp add: initializePriceHistory_def)
  have j: "\<forall>i<length cs. priceHistory (initialize clock cs pf) (Company.ticker (cs ! i)) =
           Some [\<lparr>PricePoint.ticker = Company.ticker (cs ! i), price = basePrice (cs ! i),
                  timestamp = clock i\<rparr>]" if "distinct (map Company.ticker cs)"
    using initialize_distinct(2) [OF that] by (simp add: initializePriceHistory_def)
  from a b c d e f g appendNews_length [of w evs] i j show ?thesis by blast
qed

theorem buffers_bounded_witness:
  "reachable demoState \<and> length (news demoState) \<le> 50 \<and>
   length (foldl appendHistory (initializePriceHistory 0 ''ACME'' 100) (replicate 150 demoPoint)) = 100 \<and>
   foldl appendHistory (initializePriceHistory 0 ''ACME'' 100) (replicate 150 demoPoint) =
     replicate 100 demoPoint \<and>
   length (replicate 100 demoPoint) \<le> 100 \<and>
   length (appendHistory (replicate 100 demoPoint) demoPoint) = 100 \<and>
   distinct (map Company.ticker [acme, volt]) \<and>
   priceHistory demoState ''VOLT'' =
     Some [\<lparr>PricePoint.ticker = ''VOLT'', price = 50, timestamp = 0\<rparr>]"
proof -
  note t = buffers_bounded [of demoState 0 "''ACME''" 100 "replicate 150 demoPoint"
      "replicate 100 demoPoint" demoPoint "[]" "[]" "[]" "[acme, volt]" "\<lambda>i. 0" getInitialPortfolio]
  have r: "reachable demoState" unfolding demoState_def by (rule reachable.init)
  have d: "distinct (map Company.ticker [acme, volt])" by (simp add: acme_def volt_def)
  have n: "length (news demoState) \<le> 50" using t r by blast
  have "length (foldl appendHistory (initializePriceHistory 0 ''ACME'' 100)
             (replicate 150 demoPoint)) = min 100 (Suc (length (replicate 150 demoPoint)))"
    using t by blast
  then have l: "length (foldl appendHistory (initializePriceHistory 0 ''ACME'' 100)
             (replicate 150 demoPoint)) = 100"
    by simp
  have "foldl appendHistory (initializePriceHistory 0 ''ACME'' 100) (replicate 150 demoPoint) =
          drop (Suc (length (replicate 150 demoPoint)) - 100)
            (initializePriceHistory 0 ''ACME'' 100 @ replicate 150 demoPoint)"
    using t by blast
  also have "\<dots> = drop 50 (replicate 150 demoPoint)"
    by (simp add: initializePriceHistory_def)
  also have "\<dots> = replicate 100 demoPoint" by simp
  finally have k: "foldl appendHistory (initializePriceHistory 0 ''ACME'' 100)
      (replicate 150 demoPoint) = replicate 100 demoPoint" .
  have h: "length (replicate 100 demoPoint) \<le> 100" by simp
  have "length (appendHistory (replicate 100 demoPoint) demoPoint) =
          min 100 (Suc (length (replicate 100 demoPoint)))"
    using t h by blast
  then have a: "length (appendHistory (replicate 100 demoPoint) demoPoint) = 100"
    by simp
  have q: "\<forall>i<length [acme, volt]. priceHistory (initialize (\<lambda>i. 0) [acme, volt] getInitialPortfolio)
           (Company.ticker ([acme, volt] ! i)) =
           Some [\<lparr>PricePoint.ticker = Company.ticker ([acme, volt] ! i),
                  price = basePrice ([acme, volt] ! i), timestamp = 0\<rparr>]"
    using t d by blast
  have v: "priceHistory demoState ''VOLT'' =
     Some [\<lparr>PricePoint.ticker = ''VOLT'', price = 50, timestamp = 0\<rparr>]"
    using q [rule_format, of 1] by (simp add: demoState_def volt_def)
  from r n l k h a d v show ?thesis by simp
qed

section \<open>Price tick: proofs\<close>

lemma tickState_distinct:
  assumes "tickState rnd clock now s = Inr s'"
    and "distinct (map Company.ticker (companies s))" and "i < length (companies s)"
  shows "\<exists>cp h0. prices s (Company.ticker (companies s ! i)) = Some cp \<and>
           priceHistory s (Company.ticker (companies s ! i)) = Some h0 \<and>
           prices s' (Company.ticker (companies s ! i)) =
             Some (calculateNewPrice (rnd i) (clock i) cp (companies s ! i) (news s) 1) \<and>
           priceHistory s' (Company.ticker (companies s ! i)) =
             Some (appendHistory h0
               \<lparr>PricePoint.ticker = Company.ticker (companies s ! i),
                price = calculateNewPrice (rnd i) (clock i) cp (companies s ! i) (news s) 1,
                timestamp = now\<rparr>)"
proof -
  let ?cs = "companies s"
  let ?t = "Company.ticker (?cs ! i)"
  have "?t \<in> Company.ticker ` set ?cs" using assms(3) by simp
  from tickState_at [OF assms(1) this] obtain j cp h0 where
    j: "j < length ?cs" "Company.ticker (?cs ! j) = ?t" and
    v: "prices s ?t = Some cp" "priceHistory s ?t = Some h0"
       "prices s' ?t = Some (calculateNewPrice (rnd j) (clock j) cp (?cs ! j) (news s) 1)"
       "priceHistory s' ?t = Some (appendHistory h0
               \<lparr>PricePoint.ticker = ?t,
                price = calculateNewPrice (rnd j) (clock j) cp (?cs ! j) (news s) 1,
                timestamp = now\<rparr>)"
    by blast
  have "(map Company.ticker ?cs ! j = map Company.ticker ?cs ! i) = (j = i)"
    using assms(2,3) j(1) by (intro nth_eq_iff_index_eq) simp_all
  then have "j = i" using j assms(3) by simp
  with v show ?thesis by simp
qed

lemma tickState_replaces:
  assumes "tickState rnd clock now s = Inr s'"
  shows "\<exists>np nh. s' = s\<lparr>prices := np, priceHistory := nh\<rparr> \<and>
           dom np = Company.ticker ` set (companies s) \<and>
           dom nh = Company.ticker ` set (companies s)"
proof -
  from assms obtain np nh where
    s': "s' = s\<lparr>prices := np, priceHistory := nh\<rparr>"
    by (rule tickState_Inr)
  have "(t \<in> dom np) = (t \<in> Company.ticker ` set (companies s))"
       "(t \<in> dom nh) = (t \<in> Company.ticker ` set (companies s))" for t
  proof -
    show "(t \<in> dom np) = (t \<in> Company.ticker ` set (companies s))"
    proof (cases "t \<in> Company.ticker ` set (companies s)")
      case True
      from tickState_at [OF assms True] show ?thesis using True by (auto simp: s')
    next
      case False
      from tickState_outside [OF assms False] show ?thesis using False by (auto simp: s')
    qed
    show "(t \<in> dom nh) = (t \<in> Company.ticker ` set (companies s))"
    proof (cases "t \<in> Company.ticker ` set (companies s)")
      case True
      from tickState_at [OF assms True] show ?thesis using True by (auto simp: s')
    next
      case False
      from tickState_outside [OF assms False] show ?thesis using False by (auto simp: s')
    qed
  qed
  then have "dom np = Company.ticker ` set (companies s)"
            "dom nh = Company.ticker ` set (companies s)" by blast+
  with s' show ?thesis by blast
qed

text \<open>
  C8. Within one firing, the new price of every roster ticker is \<^verbatim>\<open>calculateNewPrice\<close> of
  that ticker's price in the previous state, a company of the roster with that ticker, and
  the news of the previous state, with the draw and clock reading of that company's own
  call: nothing another company's update wrote in this firing enters it. Over a roster of
  distinct tickers the company at index \<open>i\<close> gets the price computed in call \<open>i\<close>. The firing returns
  the previous state with the price map and the history map replaced together, both defined
  exactly on the roster's tickers, and it does return a state from every state the hook can
  reach.
\<close>

theorem tick_one_snapshot:
  "(tickState rnd clock now s = Inr s' \<longrightarrow>
      (\<forall>t \<in> Company.ticker ` set (companies s).
         \<exists>j cp. j < length (companies s) \<and> Company.ticker (companies s ! j) = t \<and>
                prices s t = Some cp \<and>
                prices s' t =
                  Some (calculateNewPrice (rnd j) (clock j) cp (companies s ! j) (news s) 1)))
   \<and> (tickState rnd clock now s = Inr s' \<and> distinct (map Company.ticker (companies s)) \<longrightarrow>
      (\<forall>i<length (companies s).
         \<exists>cp. prices s (Company.ticker (companies s ! i)) = Some cp \<and>
              prices s' (Company.ticker (companies s ! i)) =
                Some (calculateNewPrice (rnd i) (clock i) cp (companies s ! i) (news s) 1)))
   \<and> (tickState rnd clock now s = Inr s' \<longrightarrow>
        (\<exists>np nh. s' = s\<lparr>prices := np, priceHistory := nh\<rparr> \<and>
                 dom np = Company.ticker ` set (companies s) \<and>
                 dom nh = Company.ticker ` set (companies s)))
   \<and> (reachable s \<longrightarrow> (\<exists>s''. tickState rnd clock now s = Inr s''))
   \<and> tick rnd clock now (Some s) = map_sum id Some (tickState rnd clock now s)
   \<and> tick rnd clock now None = Inr None"
proof -
  have g: "\<forall>t \<in> Company.ticker ` set (companies s).
         \<exists>j cp. j < length (companies s) \<and> Company.ticker (companies s ! j) = t \<and>
                prices s t = Some cp \<and>
                prices s' t =
                  Some (calculateNewPrice (rnd j) (clock j) cp (companies s ! j) (news s) 1)"
    if run: "tickState rnd clock now s = Inr s'"
  proof
    fix t assume "t \<in> Company.ticker ` set (companies s)"
    from tickState_at [OF run this] show "\<exists>j cp. j < length (companies s) \<and>
                Company.ticker (companies s ! j) = t \<and> prices s t = Some cp \<and>
                prices s' t =
                  Some (calculateNewPrice (rnd j) (clock j) cp (companies s ! j) (news s) 1)"
      by blast
  qed
  have a: "\<forall>i<length (companies s).
         \<exists>cp. prices s (Company.ticker (companies s ! i)) = Some cp \<and>
              prices s' (Company.ticker (companies s ! i)) =
                Some (calculateNewPrice (rnd i) (clock i) cp (companies s ! i) (news s) 1)"
    if "tickState rnd clock now s = Inr s' \<and> distinct (map Company.ticker (companies s))"
    using tickState_distinct [of rnd clock now s s'] that by blast
  have b: "\<exists>np nh. s' = s\<lparr>prices := np, priceHistory := nh\<rparr> \<and>
                 dom np = Company.ticker ` set (companies s) \<and>
                 dom nh = Company.ticker ` set (companies s)"
    if "tickState rnd clock now s = Inr s'"
    using that by (rule tickState_replaces)
  have c: "\<exists>s''. tickState rnd clock now s = Inr s''" if "reachable s"
    using that by (rule reachable_tick_total)
  have d: "tick rnd clock now (Some s) = map_sum id Some (tickState rnd clock now s)"
          "tick rnd clock now None = Inr None"
    by (simp_all add: tick_def)
  from g a b c d show ?thesis by blast
qed

lemma demo_prices:
  "prices demoState ''ACME'' = Some 100" "prices demoState ''VOLT'' = Some 50"
  "companies demoState = [acme, volt]" "news demoState = []"
  by (simp_all add: demoState_def initialize_def acme_def volt_def)

theorem tick_one_snapshot_witness:
  "\<exists>s'. tickState (\<lambda>i. if i = 0 then 0.75 else 0.25) (\<lambda>i. 0) 4000 demoState = Inr s' \<and>
        distinct (map Company.ticker (companies demoState)) \<and> reachable demoState \<and>
        prices s' ''ACME'' = Some 100.55 \<and> prices s' ''VOLT'' = Some 49.625"
proof -
  let ?rnd = "\<lambda>i::nat. if i = 0 then 0.75 else (0.25::real)"
  let ?clock = "\<lambda>i::nat. 0::int"
  have r: "reachable demoState" unfolding demoState_def by (rule reachable.init)
  have d: "distinct (map Company.ticker (companies demoState))"
    by (simp add: demo_prices acme_def volt_def)
  note t = tick_one_snapshot [of ?rnd ?clock 4000 demoState]
  from t [THEN conjunct2, THEN conjunct2, THEN conjunct2, THEN conjunct1] r
  obtain s' where s': "tickState ?rnd ?clock 4000 demoState = Inr s'" by blast
  from t [of s', THEN conjunct2, THEN conjunct1] s' d have all: "\<forall>i<length (companies demoState).
         \<exists>cp. prices demoState (Company.ticker (companies demoState ! i)) = Some cp \<and>
              prices s' (Company.ticker (companies demoState ! i)) =
                Some (calculateNewPrice (?rnd i) (?clock i) cp (companies demoState ! i)
                       (news demoState) 1)"
    by blast
  have a: "prices s' ''ACME'' = Some 100.55"
    using all [rule_format, of 0]
    by (simp add: demo_prices calculateNewPrice_def drift_def sentimentImpact_def
        recentNewsForCompany_def acme_def Let_def)
  have v: "prices s' ''VOLT'' = Some 49.625"
    using all [rule_format, of 1]
    by (simp add: demo_prices calculateNewPrice_def drift_def sentimentImpact_def
        recentNewsForCompany_def volt_def Let_def)
  from s' d r a v show ?thesis by blast
qed

lemma set_appendHistory: "set (appendHistory h p) \<subseteq> insert p (set h)"
proof (cases "length (h @ [p]) > 100")
  case True
  then have "h \<noteq> []" by auto
  then have "set (tl (h @ [p])) \<subseteq> insert p (set h)"
    by (cases h) auto
  with True show ?thesis by (simp add: appendHistory_def Let_def)
next
  case False
  then show ?thesis by (simp add: appendHistory_def Let_def)
qed

lemma quoteInv_initialize: "quoteInv (initialize clock cs pf)"
  unfolding quoteInv_def initialize_fields
proof
  fix c assume "c \<in> set cs"
  then have "Company.ticker c \<in> Company.ticker ` set cs" by simp
  from initialize_at [OF this, of clock pf]
  show "\<exists>h. priceHistory (initialize clock cs pf) (Company.ticker c) = Some h \<and> h \<noteq> [] \<and>
            prices (initialize clock cs pf) (Company.ticker c) = Some (price (last h)) \<and>
            (\<forall>p \<in> set h. PricePoint.ticker p = Company.ticker c)"
    by (auto simp: initializePriceHistory_def)
qed

lemma quoteInv_tick:
  assumes "quoteInv s" and "tickState rnd clock now s = Inr s'"
  shows "quoteInv s'"
  unfolding quoteInv_def tickState_fields [OF assms(2)]
proof
  fix c assume c: "c \<in> set (companies s)"
  let ?t = "Company.ticker c"
  from c have t: "?t \<in> Company.ticker ` set (companies s)" by simp
  from assms(1) c obtain h where
    h: "priceHistory s ?t = Some h" "\<forall>p \<in> set h. PricePoint.ticker p = ?t"
    unfolding quoteInv_def by blast
  from tickState_at [OF assms(2) t] h(1) obtain v where
    v: "prices s' ?t = Some v"
       "priceHistory s' ?t =
          Some (appendHistory h \<lparr>PricePoint.ticker = ?t, price = v, timestamp = now\<rparr>)"
    by auto
  let ?p = "\<lparr>PricePoint.ticker = ?t, price = v, timestamp = now\<rparr>"
  have "\<forall>p \<in> set (appendHistory h ?p). PricePoint.ticker p = ?t"
    using set_appendHistory [of h ?p] h(2) by auto
  with v show "\<exists>h. priceHistory s' ?t = Some h \<and> h \<noteq> [] \<and>
            prices s' ?t = Some (price (last h)) \<and>
            (\<forall>p \<in> set h. PricePoint.ticker p = ?t)"
    by (simp add: appendHistory_last appendHistory_not_Nil)
qed

lemma reachable_quoteInv: "reachable s \<Longrightarrow> quoteInv s"
proof (induction rule: reachable.induct)
  case (init clock companies' portfolio')
  show ?case by (rule quoteInv_initialize)
next
  case (ticked s rnd clock now s')
  then show ?case by (blast intro: quoteInv_tick)
next
  case (newsBatch s newsEvents)
  then show ?case by (simp add: quoteInv_def)
next
  case (traded s portfolio')
  then show ?case by (simp add: quoteInv_def)
qed

text \<open>
  C10. After a firing, for every company of the roster the history of its ticker is the
  previous history with one point appended; that point is the last of the history, its price
  is the ticker's entry in the price map, its ticker is the map key, and its timestamp is the
  clock reading of the firing, the same for all companies. In every state the hook can reach
  the price of each roster ticker is the price of the last point of its history, and every
  point of that history carries the ticker.
\<close>

theorem tick_quote_is_last_point:
  "(tickState rnd clock now s = Inr s' \<longrightarrow>
      (\<forall>c \<in> set (companies s).
         \<exists>h0 p. priceHistory s (Company.ticker c) = Some h0 \<and>
                priceHistory s' (Company.ticker c) = Some (appendHistory h0 p) \<and>
                appendHistory h0 p \<noteq> [] \<and> last (appendHistory h0 p) = p \<and>
                prices s' (Company.ticker c) = Some (price p) \<and>
                PricePoint.ticker p = Company.ticker c \<and>
                PricePoint.timestamp p = now))
   \<and> (reachable s \<longrightarrow> quoteInv s)"
proof -
  have "\<exists>h0 p. priceHistory s (Company.ticker c) = Some h0 \<and>
                priceHistory s' (Company.ticker c) = Some (appendHistory h0 p) \<and>
                appendHistory h0 p \<noteq> [] \<and> last (appendHistory h0 p) = p \<and>
                prices s' (Company.ticker c) = Some (price p) \<and>
                PricePoint.ticker p = Company.ticker c \<and>
                PricePoint.timestamp p = now"
    if run: "tickState rnd clock now s = Inr s'" and c: "c \<in> set (companies s)" for c
  proof -
    let ?t = "Company.ticker c"
    from c have t: "?t \<in> Company.ticker ` set (companies s)" by simp
    from tickState_at [OF run t] obtain h0 v where
      "priceHistory s ?t = Some h0" "prices s' ?t = Some v"
      "priceHistory s' ?t =
          Some (appendHistory h0 \<lparr>PricePoint.ticker = ?t, price = v, timestamp = now\<rparr>)"
      by auto
    then show ?thesis
      by (intro exI [of _ h0] exI [of _ "\<lparr>PricePoint.ticker = ?t, price = v, timestamp = now\<rparr>"])
         (simp add: appendHistory_last appendHistory_not_Nil)
  qed
  moreover have "quoteInv s" if "reachable s" using that by (rule reachable_quoteInv)
  ultimately show ?thesis by blast
qed

theorem tick_quote_is_last_point_witness:
  "\<exists>s'. tickState (\<lambda>i. 0.75) (\<lambda>i. 0) 4000 demoState = Inr s' \<and>
        acme \<in> set (companies demoState) \<and>
        priceHistory s' ''ACME'' =
          Some [\<lparr>PricePoint.ticker = ''ACME'', price = 100, timestamp = 0\<rparr>,
                \<lparr>PricePoint.ticker = ''ACME'', price = 100.55, timestamp = 4000\<rparr>] \<and>
        prices s' ''ACME'' = Some 100.55 \<and> reachable demoState \<and> quoteInv demoState"
proof -
  let ?rnd = "\<lambda>i::nat. 0.75::real"
  let ?clock = "\<lambda>i::nat. 0::int"
  have r: "reachable demoState" unfolding demoState_def by (rule reachable.init)
  obtain s' where s': "tickState ?rnd ?clock 4000 demoState = Inr s'"
    using reachable_tick_total [OF r] by blast
  note t = tick_quote_is_last_point [of ?rnd ?clock 4000 demoState s']
  have m: "acme \<in> set (companies demoState)" by (simp add: demo_prices)
  have h0: "priceHistory demoState ''ACME'' =
              Some [\<lparr>PricePoint.ticker = ''ACME'', price = 100, timestamp = 0\<rparr>]"
    by (simp add: demoState_def initialize_def initializePriceHistory_def acme_def volt_def)
  have tk: "Company.ticker acme = ''ACME''" by (simp add: acme_def)
  have d: "distinct (map Company.ticker (companies demoState))"
    by (simp add: demo_prices acme_def volt_def)
  from tickState_distinct [OF s' d, of 0]
  have v: "prices s' ''ACME'' = Some 100.55"
    by (auto simp add: demo_prices calculateNewPrice_def drift_def sentimentImpact_def
        recentNewsForCompany_def acme_def volt_def Let_def)
  from t s' have "\<forall>c \<in> set (companies demoState).
         \<exists>h0 p. priceHistory demoState (Company.ticker c) = Some h0 \<and>
                priceHistory s' (Company.ticker c) = Some (appendHistory h0 p) \<and>
                appendHistory h0 p \<noteq> [] \<and> last (appendHistory h0 p) = p \<and>
                prices s' (Company.ticker c) = Some (price p) \<and>
                PricePoint.ticker p = Company.ticker c \<and>
                PricePoint.timestamp p = 4000"
    by blast
  with m obtain g p where
    p: "priceHistory demoState (Company.ticker acme) = Some g"
       "priceHistory s' (Company.ticker acme) = Some (appendHistory g p)"
       "prices s' (Company.ticker acme) = Some (price p)"
       "PricePoint.ticker p = Company.ticker acme" "PricePoint.timestamp p = 4000"
    by blast
  from p(1) h0 have g: "g = [\<lparr>PricePoint.ticker = ''ACME'', price = 100, timestamp = 0\<rparr>]"
    by (simp add: tk)
  have "p = \<lparr>PricePoint.ticker = ''ACME'', price = 100.55, timestamp = 4000\<rparr>"
    using p(3,4,5) v by (simp add: tk)
  with p(2) g have h: "priceHistory s' ''ACME'' =
          Some [\<lparr>PricePoint.ticker = ''ACME'', price = 100, timestamp = 0\<rparr>,
                \<lparr>PricePoint.ticker = ''ACME'', price = 100.55, timestamp = 4000\<rparr>]"
    by (simp add: tk appendHistory_def)
  have q: "quoteInv demoState" using t r by blast
  from s' m h v r q show ?thesis by blast
qed

section \<open>Portfolio ledger and trade entry points: proofs\<close>

lemma buyStock_Inr:
  assumes "buyStock p t n pr = Inr p'"
  shows "0 < n" and "real_of_int n * pr \<le> cash p"
    and "cash p' = cash p - real_of_int n * pr"
    and "positions p' = (positions p)(t \<mapsto>
           (case positions p t of
              None \<Rightarrow> \<lparr>shares = n, averageCost = pr\<rparr>
            | Some old \<Rightarrow>
                \<lparr>shares = shares old + n,
                 averageCost =
                   (real_of_int (shares old) * averageCost old + real_of_int n * pr) /
                   real_of_int (shares old + n)\<rparr>))"
  using assms by (auto simp: buyStock_def split: if_splits)

lemma sellStock_Inr:
  assumes "sellStock p t n pr = Inr p'"
  obtains held where "0 < n" "positions p t = Some held" "n \<le> shares held"
    "cash p' = cash p + real_of_int n * pr"
    "positions p' = (if shares held - n = 0 then (positions p)(t := None)
                     else (positions p)(t \<mapsto> held\<lparr>shares := shares held - n\<rparr>))"
  using assms by (auto simp: sellStock_def split: if_splits option.splits)

lemma buyStock_wellFormed:
  assumes "wellFormed p" and "buyStock p t n pr = Inr p'"
  shows "wellFormed p'"
proof -
  note b = buyStock_Inr [OF assms(2)]
  have "0 \<le> cash p'" using b(2,3) by simp
  moreover have "0 < shares pos" if "positions p' k = Some pos" for k pos
  proof (cases "k = t")
    case True
    with that b(4) have pos: "pos = (case positions p t of
              None \<Rightarrow> \<lparr>shares = n, averageCost = pr\<rparr>
            | Some old \<Rightarrow>
                \<lparr>shares = shares old + n,
                 averageCost =
                   (real_of_int (shares old) * averageCost old + real_of_int n * pr) /
                   real_of_int (shares old + n)\<rparr>)"
      by simp
    show ?thesis
    proof (cases "positions p t")
      case None
      with pos b(1) show ?thesis by simp
    next
      case (Some old)
      with assms(1) have "0 < shares old" by (auto simp: wellFormed_def)
      with pos Some b(1) show ?thesis by simp
    qed
  next
    case False
    with that b(4) have "positions p k = Some pos" by simp
    with assms(1) show ?thesis by (auto simp: wellFormed_def)
  qed
  ultimately show ?thesis by (simp add: wellFormed_def)
qed

lemma sellStock_wellFormed:
  assumes "wellFormed p" and "0 \<le> pr" and "sellStock p t n pr = Inr p'"
  shows "wellFormed p'"
proof -
  from assms(3) obtain held where
    s: "0 < n" "positions p t = Some held" "n \<le> shares held"
       "cash p' = cash p + real_of_int n * pr"
       "positions p' = (if shares held - n = 0 then (positions p)(t := None)
                        else (positions p)(t \<mapsto> held\<lparr>shares := shares held - n\<rparr>))"
    by (rule sellStock_Inr)
  have "0 \<le> real_of_int n * pr" using s(1) assms(2) by simp
  with assms(1) s(4) have "0 \<le> cash p'" by (simp add: wellFormed_def)
  moreover have "0 < shares pos" if "positions p' k = Some pos" for k pos
  proof (cases "k = t")
    case True
    with that s(5) have "shares held - n \<noteq> 0" "pos = held\<lparr>shares := shares held - n\<rparr>"
      by (auto split: if_splits)
    with s(3) show ?thesis by simp
  next
    case False
    with that s(5) have "positions p k = Some pos" by (auto split: if_splits)
    with assms(1) show ?thesis by (auto simp: wellFormed_def)
  qed
  ultimately show ?thesis by (simp add: wellFormed_def)
qed

lemma afterTrade_wellFormed:
  assumes "wellFormed p" and "validTrade tr"
  shows "wellFormed (afterTrade p tr)"
proof (cases tr)
  case (Buy t n pr)
  with assms(1) show ?thesis
    by (auto simp: afterTrade_def split: sum.splits intro: buyStock_wellFormed)
next
  case (Sell t n pr)
  with assms show ?thesis
    by (auto simp: afterTrade_def split: sum.splits intro: sellStock_wellFormed)
qed

lemma foldl_afterTrade_wellFormed:
  "wellFormed p \<Longrightarrow> list_all validTrade ops \<Longrightarrow> wellFormed (foldl afterTrade p ops)"
  by (induction ops arbitrary: p) (simp_all add: afterTrade_wellFormed)

lemma list_all_take: "list_all P xs \<Longrightarrow> list_all P (take k xs)"
  by (auto simp: list_all_iff dest: in_set_takeD)

text \<open>
  C5. From a portfolio with cash \<open>\<ge> 0\<close> whose positions all hold a positive number of
  shares, after each operation of every valid sequence of buys and sells cash is \<open>\<ge> 0\<close> and
  every ticker present in the positions has shares \<open>> 0\<close>; a buy succeeds only when its cost
  is at most the cash, and a sale of all shares held removes the position.
\<close>

theorem ledger_keeps_portfolio_wellFormed:
  "(wellFormed p \<and> list_all validTrade ops \<longrightarrow>
      (\<forall>k. wellFormed (foldl afterTrade p (take k ops))))
   \<and> (wellFormed p \<and> buyStock p t n pr = Inr p' \<longrightarrow>
        wellFormed p' \<and> cash p' = cash p - real_of_int n * pr \<and> real_of_int n * pr \<le> cash p)
   \<and> (wellFormed p \<and> 0 \<le> pr \<and> sellStock p t n pr = Inr p' \<longrightarrow> wellFormed p')
   \<and> (sellStock p t n pr = Inr p' \<and> positions p t = Some held \<and> shares held = n \<longrightarrow>
        positions p' t = None)
   \<and> wellFormed getInitialPortfolio"
proof -
  have a: "\<forall>k. wellFormed (foldl afterTrade p (take k ops))"
    if "wellFormed p \<and> list_all validTrade ops"
    using that by (auto intro: foldl_afterTrade_wellFormed list_all_take)
  have b: "wellFormed p' \<and> cash p' = cash p - real_of_int n * pr \<and> real_of_int n * pr \<le> cash p"
    if "wellFormed p \<and> buyStock p t n pr = Inr p'"
    using that buyStock_wellFormed [of p t n pr p'] buyStock_Inr(2,3) [of p t n pr p'] by blast
  have c: "wellFormed p'" if "wellFormed p \<and> 0 \<le> pr \<and> sellStock p t n pr = Inr p'"
    using that sellStock_wellFormed by blast
  have d: "positions p' t = None"
    if "sellStock p t n pr = Inr p' \<and> positions p t = Some held \<and> shares held = n"
    using that by (auto elim!: sellStock_Inr)
  have e: "wellFormed getInitialPortfolio"
    by (simp add: wellFormed_def getInitialPortfolio_def)
  from a b c d e show ?thesis by blast
qed

text \<open>
  The round trip in exact arithmetic. When a buy succeeds, the sale of the same quantity of
  the same ticker at the same price right after it succeeds too and returns cash to its
  value before the buy; when the ticker was not held before, the whole portfolio is back to
  what it was. The equality of the two cash values rests on \<open>(c - x) + x = c\<close>, which holds
  for the reals of this model and not for rounded arithmetic.
\<close>

lemma buy_then_sell_exact:
  "(wellFormed p \<and> buyStock p t n pr = Inr p1 \<longrightarrow>
      (\<exists>p2. sellStock p1 t n pr = Inr p2 \<and> cash p2 = cash p \<and>
            (positions p t = None \<longrightarrow> p2 = p)))"
proof (intro impI, elim conjE)
  assume wf: "wellFormed p" and buy: "buyStock p t n pr = Inr p1"
  note b = buyStock_Inr [OF buy]
  define bought where "bought = (case positions p t of
              None \<Rightarrow> \<lparr>shares = n, averageCost = pr\<rparr>
            | Some old \<Rightarrow>
                \<lparr>shares = shares old + n,
                 averageCost =
                   (real_of_int (shares old) * averageCost old + real_of_int n * pr) /
                   real_of_int (shares old + n)\<rparr>)"
  have pos1: "positions p1 t = Some bought" using b(4) by (simp add: bought_def)
  have enough: "n \<le> shares bought"
  proof (cases "positions p t")
    case None
    then show ?thesis by (simp add: bought_def)
  next
    case (Some old)
    with wf have "0 < shares old" by (auto simp: wellFormed_def)
    with Some show ?thesis by (simp add: bought_def)
  qed
  define p2 where "p2 = p1
            \<lparr>cash := cash p1 + real_of_int n * pr,
             positions :=
               (if shares bought - n = 0
                then (positions p1)(t := None)
                else (positions p1)(t \<mapsto> bought\<lparr>shares := shares bought - n\<rparr>))\<rparr>"
  have sell: "sellStock p1 t n pr = Inr p2"
    using b(1) pos1 enough by (simp add: sellStock_def p2_def)
  have cash: "cash p2 = cash p" using b(3) by (simp add: p2_def)
  have same: "p2 = p" if none: "positions p t = None"
  proof -
    have "shares bought - n = 0" using none by (simp add: bought_def)
    then have "positions p2 = (positions p1)(t := None)" by (simp add: p2_def)
    also have "\<dots> = positions p" using b(4) none by (auto simp: fun_eq_iff)
    finally have "positions p2 = positions p" .
    moreover have "Portfolio.more p2 = Portfolio.more p"
      using buy by (auto simp: p2_def buyStock_def split: if_splits)
    ultimately show ?thesis using cash by (intro Portfolio.equality) simp_all
  qed
  show "\<exists>p2. sellStock p1 t n pr = Inr p2 \<and> cash p2 = cash p \<and>
            (positions p t = None \<longrightarrow> p2 = p)"
    using sell cash same by (intro exI [of _ p2]) simp
qed

lemma demo_buy: "buyStock getInitialPortfolio ''ACME'' 10 100 = Inr demoHolding"
  by (simp add: buyStock_def getInitialPortfolio_def demoHolding_def)

theorem ledger_keeps_portfolio_wellFormed_witness:
  "wellFormed getInitialPortfolio \<and> list_all validTrade demoTrades \<and>
   wellFormed (foldl afterTrade getInitialPortfolio demoTrades) \<and>
   cash (foldl afterTrade getInitialPortfolio demoTrades) = 99980 \<and>
   buyStock getInitialPortfolio ''ACME'' 10 100 = Inr demoHolding \<and>
   wellFormed demoHolding \<and> cash demoHolding = 99000 \<and>
   sellStock getInitialPortfolio ''VOLT'' 1 50 = Inl NoPosition"
proof -
  note t = ledger_keeps_portfolio_wellFormed
    [of getInitialPortfolio demoTrades "''ACME''" 10 100 demoHolding
        "\<lparr>shares = 10, averageCost = 100\<rparr>"]
  have w: "wellFormed getInitialPortfolio" using t by blast
  have v: "list_all validTrade demoTrades" by (simp add: demoTrades_def)
  from t w v have "\<forall>k. wellFormed (foldl afterTrade getInitialPortfolio (take k demoTrades))"
    by blast
  from this [rule_format, of 4]
  have f: "wellFormed (foldl afterTrade getInitialPortfolio demoTrades)"
    by (simp add: demoTrades_def)
  have c: "cash (foldl afterTrade getInitialPortfolio demoTrades) = 99980"
    by (simp add: demoTrades_def afterTrade_def buyStock_def sellStock_def
        getInitialPortfolio_def)
  from t w demo_buy have h: "wellFormed demoHolding" by blast
  have n: "sellStock getInitialPortfolio ''VOLT'' 1 50 = Inl NoPosition"
    by (simp add: sellStock_def getInitialPortfolio_def)
  from w v f c demo_buy h n show ?thesis by (simp add: demoHolding_def)
qed

lemma rne_error: "\<bar>of_int (rne q) - q\<bar> \<le> 1 / 2"
proof -
  have "of_int \<lfloor>q\<rfloor> \<le> q" "q < of_int \<lfloor>q\<rfloor> + 1" by linarith+
  then show ?thesis by (auto simp: rne_def Let_def)
qed

lemma rne_nonneg: "0 \<le> q \<Longrightarrow> 0 \<le> rne q"
proof -
  assume "0 \<le> q"
  then have "0 \<le> \<lfloor>q\<rfloor>" by simp
  then show ?thesis by (auto simp: rne_def Let_def)
qed

lemma fl_error: "\<bar>fl y - y\<bar> \<le> \<bar>y\<bar> / 2 ^ 53"
proof (cases "y = 0")
  case True
  then show ?thesis by (simp add: fl_def)
next
  case False
  define e where "e = \<lfloor>log 2 \<bar>y\<bar>\<rfloor>"
  define u :: real where "u = 2 powr (of_int e - 52)"
  have u: "0 < u" by (simp add: u_def)
  have fl: "fl y = of_int (rne (y / u)) * u"
    using False by (simp add: fl_def e_def u_def Let_def)
  have "2 powr (of_int e) \<le> \<bar>y\<bar>"
    using False floor_log_eq_powr_iff [of "\<bar>y\<bar>" 2 e] by (simp add: e_def)
  moreover have "2 powr (of_int e) = u * 2 ^ 52"
    by (simp add: u_def powr_diff)
  ultimately have low: "u * 2 ^ 52 \<le> \<bar>y\<bar>" by simp
  have "fl y - y = (of_int (rne (y / u)) - y / u) * u"
    using u by (simp add: fl field_simps)
  then have "\<bar>fl y - y\<bar> = \<bar>of_int (rne (y / u)) - y / u\<bar> * u"
    using u by (simp add: abs_mult)
  also have "\<dots> \<le> (1 / 2) * u"
    using rne_error [of "y / u"] u by (intro mult_right_mono) simp_all
  also have "\<dots> = (u * 2 ^ 52) / 2 ^ 53" by simp
  also have "\<dots> \<le> \<bar>y\<bar> / 2 ^ 53"
    using low by (intro divide_right_mono) simp_all
  finally show ?thesis .
qed

lemma fl_nonneg: "0 \<le> y \<Longrightarrow> 0 \<le> fl y"
proof (cases "y = 0")
  case True
  then show ?thesis by (simp add: fl_def)
next
  case False
  assume "0 \<le> y"
  define u :: real where "u = 2 powr (of_int \<lfloor>log 2 \<bar>y\<bar>\<rfloor> - 52)"
  have u: "0 < u" by (simp add: u_def)
  have "0 \<le> y / u" using \<open>0 \<le> y\<close> u by simp
  then have "0 \<le> rne (y / u)" by (rule rne_nonneg)
  then have "0 \<le> of_int (rne (y / u)) * u" using u by simp
  then show ?thesis using False by (simp add: fl_def u_def Let_def)
qed

lemma fl_eval:
  assumes "2 ^ a / 2 ^ b \<le> \<bar>x\<bar>" and "\<bar>x\<bar> < 2 * 2 ^ a / 2 ^ b"
  shows "fl x = of_int (rne (x * 2 ^ (52 + b) / 2 ^ a)) * 2 ^ a / 2 ^ (52 + b)"
proof -
  define e :: int where "e = int a - int b"
  have p: "2 powr (of_int e) = (2::real) ^ a / 2 ^ b"
    by (simp add: e_def powr_diff powr_realpow)
  have x: "0 < \<bar>x\<bar>" using assms(1) by (smt (verit) divide_pos_pos zero_less_power)
  have "2 powr (of_int (e + 1)) = 2 * (2::real) ^ a / 2 ^ b"
    using p by (simp add: powr_add)
  with p assms have "\<lfloor>log 2 \<bar>x\<bar>\<rfloor> = e"
    using floor_log_eq_powr_iff [of "\<bar>x\<bar>" 2 e] x by simp
  moreover have "2 powr (of_int e - 52) = (2::real) ^ a / 2 ^ (52 + b)"
    using p by (simp add: powr_diff power_add)
  ultimately show ?thesis using x by (simp add: fl_def Let_def)
qed

lemma double231_6_fixed: "fl double231_6 = double231_6"
  by (subst fl_eval [of 7 0]) (simp_all add: double231_6_def rne_def)

lemma float_difference: "fl (double231_6 - double100_55) = 2305455981120717 / 2 ^ 44"
  by (subst fl_eval [of 7 0]) (simp_all add: double231_6_def double100_55_def rne_def)

lemma float_sum: "fl (2305455981120717 / 2 ^ 44 + double100_55) = double231_6 + 1 / 2 ^ 45"
  by (subst fl_eval [of 7 0]) (simp_all add: double231_6_def double100_55_def rne_def)

lemma roundtrip_bound:
  assumes "0 \<le> x" and "x \<le> c"
  shows "\<bar>fl (fl (c - x) + x) - c\<bar> \<le> c * (1 / 2 ^ 52 + 1 / 2 ^ 106)"
proof -
  define d1 where "d1 = fl (c - x) - (c - x)"
  define d2 where "d2 = fl (fl (c - x) + x) - (fl (c - x) + x)"
  have c: "0 \<le> c" using assms by simp
  have "\<bar>d1\<bar> \<le> \<bar>c - x\<bar> / 2 ^ 53" unfolding d1_def by (rule fl_error)
  also have "\<dots> \<le> c / 2 ^ 53" using assms by (intro divide_right_mono) simp_all
  finally have 1: "\<bar>d1\<bar> \<le> c / 2 ^ 53" .
  have s: "fl (c - x) + x = c + d1" by (simp add: d1_def)
  have "\<bar>c + d1\<bar> \<le> c + c / 2 ^ 53" using 1 c by linarith
  then have "\<bar>c + d1\<bar> / 2 ^ 53 \<le> (c + c / 2 ^ 53) / 2 ^ 53"
    by (intro divide_right_mono) simp_all
  moreover have "\<bar>d2\<bar> \<le> \<bar>fl (c - x) + x\<bar> / 2 ^ 53" unfolding d2_def by (rule fl_error)
  ultimately have 2: "\<bar>d2\<bar> \<le> (c + c / 2 ^ 53) / 2 ^ 53" by (simp add: s)
  have "fl (fl (c - x) + x) - c = d2 + d1" by (simp add: d1_def d2_def)
  then have "\<bar>fl (fl (c - x) + x) - c\<bar> \<le> \<bar>d2\<bar> + \<bar>d1\<bar>" by linarith
  also have "\<dots> \<le> (c + c / 2 ^ 53) / 2 ^ 53 + c / 2 ^ 53" using 1 2 by linarith
  also have "\<dots> = c * (1 / 2 ^ 52 + 1 / 2 ^ 106)" by (simp add: field_simps)
  finally show ?thesis .
qed

lemma buy_then_sell_rounded:
  assumes wf: "wellFormed p" and pr: "0 \<le> pr" and buy: "buyStockFl p t n pr = Inr p1"
  shows "\<exists>p2. sellStockFl p1 t n pr = Inr p2 \<and>
              \<bar>cash p2 - cash p\<bar> \<le> cash p * (1 / 2 ^ 52 + 1 / 2 ^ 106)"
proof -
  define cost where "cost = fl (real_of_int n * pr)"
  define bought where "bought = (case positions p t of
                 None \<Rightarrow> \<lparr>shares = n, averageCost = pr\<rparr>
               | Some old \<Rightarrow>
                   \<lparr>shares = shares old + n,
                    averageCost =
                      fl (fl (fl (real_of_int (shares old) * averageCost old) + cost) /
                          real_of_int (shares old + n))\<rparr>)"
  from buy have n: "0 < n" and le: "cost \<le> cash p"
    and c1: "cash p1 = fl (cash p - cost)" and pos1: "positions p1 t = Some bought"
    unfolding buyStockFl_def Let_def cost_def bought_def by (auto split: if_splits)
  have "0 \<le> real_of_int n * pr" using n pr by simp
  then have nonneg: "0 \<le> cost" unfolding cost_def by (rule fl_nonneg)
  have enough: "n \<le> shares bought"
  proof (cases "positions p t")
    case None
    then show ?thesis by (simp add: bought_def)
  next
    case (Some old)
    with wf have "0 < shares old" by (auto simp: wellFormed_def)
    with Some show ?thesis by (simp add: bought_def)
  qed
  define p2 where "p2 = p1
            \<lparr>cash := fl (cash p1 + cost),
             positions :=
               (if shares bought - n = 0
                then (positions p1)(t := None)
                else (positions p1)(t \<mapsto> bought\<lparr>shares := shares bought - n\<rparr>))\<rparr>"
  have sell: "sellStockFl p1 t n pr = Inr p2"
    using n pos1 enough by (simp add: sellStockFl_def p2_def cost_def)
  have "cash p2 = fl (fl (cash p - cost) + cost)" by (simp add: p2_def c1)
  with roundtrip_bound [OF nonneg le]
  have "\<bar>cash p2 - cash p\<bar> \<le> cash p * (1 / 2 ^ 52 + 1 / 2 ^ 106)" by simp
  with sell show ?thesis by blast
qed

lemma double100_55_fixed: "fl double100_55 = double100_55"
  by (subst fl_eval [of 6 0]) (simp_all add: double100_55_def rne_def)

lemma float_buy: "buyStockFl floatPortfolio ''ACME'' 1 double100_55 = Inr floatHolding"
  using float_difference double100_55_fixed
  by (simp add: buyStockFl_def floatPortfolio_def floatHolding_def Let_def)
     (simp add: double231_6_def double100_55_def)

lemma float_sell:
  "sellStockFl floatHolding ''ACME'' 1 double100_55 = Inr (floatPortfolio\<lparr>cash := double231_6 + 1 / 2 ^ 45\<rparr>)"
  using float_sum double100_55_fixed
  by (simp add: sellStockFl_def floatPortfolio_def floatHolding_def)

text \<open>
  C6, as stated, fails in double arithmetic: with cash 231.6, buying one share at 100.55 and
  selling it at once leaves 231.60000000000002, one unit in the last place above the cash
  before the buy. Both roundings are ties, resolved to the even neighbour.
\<close>

theorem buy_then_sell_restores_cash_counterexample:
  "\<bar>double231_6 - 231.6\<bar> < 1 / 2 ^ 46 \<and> \<bar>double100_55 - 100.55\<bar> < 1 / 2 ^ 47 \<and>
   fl double231_6 = double231_6 \<and> fl double100_55 = double100_55 \<and>
   wellFormed floatPortfolio \<and> cash floatPortfolio = double231_6 \<and>
   buyStockFl floatPortfolio ''ACME'' 1 double100_55 = Inr floatHolding \<and>
   sellStockFl floatHolding ''ACME'' 1 double100_55 =
     Inr (floatPortfolio\<lparr>cash := double231_6 + 1 / 2 ^ 45\<rparr>) \<and>
   cash (floatPortfolio\<lparr>cash := double231_6 + 1 / 2 ^ 45\<rparr>) \<noteq> cash floatPortfolio"
proof -
  have a: "\<bar>double231_6 - 231.6\<bar> < 1 / 2 ^ 46" by (simp add: double231_6_def)
  have b: "\<bar>double100_55 - 100.55\<bar> < 1 / 2 ^ 47" by (simp add: double100_55_def)
  have w: "wellFormed floatPortfolio"
    by (simp add: wellFormed_def floatPortfolio_def double231_6_def)
  have c: "cash floatPortfolio = double231_6" by (simp add: floatPortfolio_def)
  have d: "cash (floatPortfolio\<lparr>cash := double231_6 + 1 / 2 ^ 45\<rparr>) \<noteq> cash floatPortfolio"
    by (simp add: floatPortfolio_def)
  from a b double231_6_fixed double100_55_fixed w c float_buy float_sell d show ?thesis by blast
qed

text \<open>
  C6, amended. When a buy succeeds, the sale of the same quantity of the same ticker at the
  same price right after it succeeds too and returns cash to its value before the buy up to
  rounding: exactly in exact arithmetic (and then the whole portfolio is restored when the
  ticker was not held before), and in double arithmetic, at a price that is not negative, to
  within a relative error of \<^verbatim>\<open>2^-52 + 2^-106\<close>.
\<close>

theorem buy_then_sell_restores_cash:
  "(wellFormed p \<and> buyStock p t n pr = Inr p1 \<longrightarrow>
      (\<exists>p2. sellStock p1 t n pr = Inr p2 \<and> cash p2 = cash p \<and>
            (positions p t = None \<longrightarrow> p2 = p)))
   \<and> (wellFormed q \<and> 0 \<le> pr \<and> buyStockFl q t n pr = Inr q1 \<longrightarrow>
        (\<exists>q2. sellStockFl q1 t n pr = Inr q2 \<and>
              \<bar>cash q2 - cash q\<bar> \<le> cash q * (1 / 2 ^ 52 + 1 / 2 ^ 106)))"
proof -
  have a: "\<exists>p2. sellStock p1 t n pr = Inr p2 \<and> cash p2 = cash p \<and>
            (positions p t = None \<longrightarrow> p2 = p)"
    if "wellFormed p \<and> buyStock p t n pr = Inr p1"
    using that buy_then_sell_exact [of p t n pr p1] by blast
  have b: "\<exists>q2. sellStockFl q1 t n pr = Inr q2 \<and>
              \<bar>cash q2 - cash q\<bar> \<le> cash q * (1 / 2 ^ 52 + 1 / 2 ^ 106)"
    if "wellFormed q \<and> 0 \<le> pr \<and> buyStockFl q t n pr = Inr q1"
    using that buy_then_sell_rounded [of q pr t n q1] by blast
  from a b show ?thesis by blast
qed

theorem buy_then_sell_restores_cash_witness:
  "wellFormed getInitialPortfolio \<and>
   buyStock getInitialPortfolio ''ACME'' 10 100 = Inr demoHolding \<and>
   sellStock demoHolding ''ACME'' 10 100 = Inr getInitialPortfolio \<and>
   cash getInitialPortfolio = 100000 \<and> cash demoHolding = 99000 \<and>
   wellFormed floatPortfolio \<and> 0 \<le> double100_55 \<and>
   buyStockFl floatPortfolio ''ACME'' 1 double100_55 = Inr floatHolding \<and>
   (\<exists>q2. sellStockFl floatHolding ''ACME'' 1 double100_55 = Inr q2 \<and>
         \<bar>cash q2 - cash floatPortfolio\<bar> \<le>
           cash floatPortfolio * (1 / 2 ^ 52 + 1 / 2 ^ 106))"
proof -
  note t = buy_then_sell_restores_cash
    [of getInitialPortfolio "''ACME''" 10 100 demoHolding]
  note u = buy_then_sell_restores_cash
    [of _ "''ACME''" 1 double100_55 _ floatPortfolio floatHolding]
  have w: "wellFormed getInitialPortfolio"
    by (simp add: wellFormed_def getInitialPortfolio_def)
  have n: "positions getInitialPortfolio ''ACME'' = None"
    by (simp add: getInitialPortfolio_def)
  from t [THEN conjunct1] w demo_buy n
  have s: "sellStock demoHolding ''ACME'' 10 100 = Inr getInitialPortfolio" by auto
  have wf: "wellFormed floatPortfolio"
    by (simp add: wellFormed_def floatPortfolio_def double231_6_def)
  have q: "0 \<le> double100_55" by (simp add: double100_55_def)
  from u [THEN conjunct2] wf q float_buy
  have r: "\<exists>q2. sellStockFl floatHolding ''ACME'' 1 double100_55 = Inr q2 \<and>
         \<bar>cash q2 - cash floatPortfolio\<bar> \<le>
           cash floatPortfolio * (1 / 2 ^ 52 + 1 / 2 ^ 106)"
    by blast
  have c: "cash getInitialPortfolio = 100000" "cash demoHolding = 99000"
    by (simp_all add: getInitialPortfolio_def demoHolding_def)
  from w demo_buy s c wf q float_buy r show ?thesis by blast
qed

text \<open>
  C7. For every ledger function behind \<^verbatim>\<open>handleBuy\<close> and \<^verbatim>\<open>handleSell\<close>: when the ledger
  call fails, the entry point throws that same error and the hook's state is the state
  before the call; whenever an entry point throws, the state is unchanged. When the ledger
  call succeeds only the portfolio field is replaced.
\<close>

theorem trade_failure_leaves_state:
  "(buyStock' (portfolio s) t n (prices s t) = Inl err \<longrightarrow>
      handleBuy buyStock' (Some s) t n = (Some err, Some s))
   \<and> (sellStock' (portfolio s) t n (prices s t) = Inl err \<longrightarrow>
        handleSell sellStock' (Some s) t n = (Some err, Some s))
   \<and> (buyStock' (portfolio s) t n (prices s t) = Inr p' \<longrightarrow>
        handleBuy buyStock' (Some s) t n = (None, Some (s\<lparr>portfolio := p'\<rparr>)))
   \<and> (sellStock' (portfolio s) t n (prices s t) = Inr p' \<longrightarrow>
        handleSell sellStock' (Some s) t n = (None, Some (s\<lparr>portfolio := p'\<rparr>)))
   \<and> (handleBuy buyStock' state t n = (Some err, state') \<longrightarrow> state' = state)
   \<and> (handleSell sellStock' state t n = (Some err, state') \<longrightarrow> state' = state)
   \<and> handleBuy buyStock' None t n = (None, None)
   \<and> handleSell sellStock' None t n = (None, None)"
proof -
  have a: "handleBuy buyStock' (Some s) t n = (Some err, Some s)"
    if "buyStock' (portfolio s) t n (prices s t) = Inl err"
    using that by (simp add: handleBuy_def)
  have b: "handleSell sellStock' (Some s) t n = (Some err, Some s)"
    if "sellStock' (portfolio s) t n (prices s t) = Inl err"
    using that by (simp add: handleSell_def)
  have c: "handleBuy buyStock' (Some s) t n = (None, Some (s\<lparr>portfolio := p'\<rparr>))"
    if "buyStock' (portfolio s) t n (prices s t) = Inr p'"
    using that by (simp add: handleBuy_def)
  have d: "handleSell sellStock' (Some s) t n = (None, Some (s\<lparr>portfolio := p'\<rparr>))"
    if "sellStock' (portfolio s) t n (prices s t) = Inr p'"
    using that by (simp add: handleSell_def)
  have e: "state' = state" if "handleBuy buyStock' state t n = (Some err, state')"
    using that by (auto simp: handleBuy_def Let_def split: option.splits sum.splits)
  have f: "state' = state" if "handleSell sellStock' state t n = (Some err, state')"
    using that by (auto simp: handleSell_def Let_def split: option.splits sum.splits)
  have g: "handleBuy buyStock' None t n = (None, None)"
          "handleSell sellStock' None t n = (None, None)"
    by (simp_all add: handleBuy_def handleSell_def)
  from a b c d e f g show ?thesis by blast
qed

theorem trade_failure_leaves_state_witness:
  "withQuote buyStock (portfolio demoState) ''ACME'' 2000 (prices demoState ''ACME'') =
     Inl InsufficientFunds \<and>
   handleBuy (withQuote buyStock) (Some demoState) ''ACME'' 2000 =
     (Some InsufficientFunds, Some demoState) \<and>
   withQuote sellStock (portfolio demoState) ''ACME'' 10 (prices demoState ''ACME'') =
     Inl NoPosition \<and>
   handleSell (withQuote sellStock) (Some demoState) ''ACME'' 10 =
     (Some NoPosition, Some demoState) \<and>
   handleBuy (withQuote buyStock) (Some demoState) ''ACME'' 0 =
     (Some InvalidQuantity, Some demoState)"
proof -
  have pf: "portfolio demoState = getInitialPortfolio"
    by (simp add: demoState_def initialize_fields)
  have b: "withQuote buyStock (portfolio demoState) ''ACME'' 2000 (prices demoState ''ACME'') =
     Inl InsufficientFunds"
    by (simp add: withQuote_def demo_prices pf buyStock_def getInitialPortfolio_def)
  have s: "withQuote sellStock (portfolio demoState) ''ACME'' 10 (prices demoState ''ACME'') =
     Inl NoPosition"
    by (simp add: withQuote_def demo_prices pf sellStock_def getInitialPortfolio_def)
  have z: "withQuote buyStock (portfolio demoState) ''ACME'' 0 (prices demoState ''ACME'') =
     Inl InvalidQuantity"
    by (simp add: withQuote_def demo_prices pf buyStock_def getInitialPortfolio_def)
  note t = trade_failure_leaves_state
  from t [of "withQuote buyStock" demoState "''ACME''" 2000 InsufficientFunds] b
  have 1: "handleBuy (withQuote buyStock) (Some demoState) ''ACME'' 2000 =
     (Some InsufficientFunds, Some demoState)" by blast
  from t [of _ demoState "''ACME''" 10 NoPosition "withQuote sellStock"] s
  have 2: "handleSell (withQuote sellStock) (Some demoState) ''ACME'' 10 =
     (Some NoPosition, Some demoState)" by blast
  from t [of "withQuote buyStock" demoState "''ACME''" 0 InvalidQuantity] z
  have 3: "handleBuy (withQuote buyStock) (Some demoState) ''ACME'' 0 =
     (Some InvalidQuantity, Some demoState)" by blast
  from b s 1 2 3 show ?thesis by blast
qed

section \<open>News generation: proofs\<close>


declare fallbackLoop.simps [simp del]

lemma pick_in_set:
  assumes "pick r xs = Some x"
  shows "x \<in> set xs"
proof -
  let ?i = "\<lfloor>r * real (length xs)\<rfloor>"
  from assms have r: "0 \<le> ?i" "?i < int (length xs)" "x = xs ! nat ?i"
    by (auto simp: pick_def Let_def split: if_splits)
  then have "nat ?i < length xs" by linarith
  then show ?thesis using r(3) by simp
qed

lemma pick_defined:
  assumes "0 \<le> r" "r < 1" "xs \<noteq> []"
  shows "\<exists>x. pick r xs = Some x"
proof -
  let ?n = "real (length xs)"
  have n: "0 < ?n" using assms(3) by simp
  have "0 \<le> r * ?n" using assms(1) by simp
  then have lo: "0 \<le> \<lfloor>r * ?n\<rfloor>" by simp
  have "r * ?n < 1 * ?n" using assms(2) n by (intro mult_strict_right_mono)
  then have "r * ?n < real_of_int (int (length xs))" by simp
  then have hi: "\<lfloor>r * ?n\<rfloor> < int (length xs)" by (simp only: floor_less_iff)
  from lo hi show ?thesis by (simp add: pick_def Let_def)
qed

lemma fallbackEvent_ticker:
  "fallbackEvent rnd now cs i = Inr ev \<Longrightarrow> NewsEvent.ticker ev \<in> Company.ticker ` set cs"
  by (auto simp: fallbackEvent_def Let_def split: option.splits prod.splits dest: pick_in_set)

lemma fallbackEvent_defined:
  assumes "\<And>k. 0 \<le> rnd k \<and> rnd k < 1" and "cs \<noteq> []"
  shows "\<exists>ev. fallbackEvent rnd now cs i = Inr ev"
proof -
  obtain c where c: "pick (rnd (4 * i)) cs = Some c"
    using pick_defined [of "rnd (4 * i)" cs] assms by blast
  let ?ts = "if rnd (4 * i + 1) > 0.5 then positiveTemplates else negativeTemplates"
  have "?ts \<noteq> []" by (simp add: positiveTemplates_def negativeTemplates_def)
  then obtain tp where tp: "pick (rnd (4 * i + 2)) ?ts = Some tp"
    using pick_defined [of "rnd (4 * i + 2)" ?ts] assms(1) by blast
  have "bodyTemplates c \<noteq> []" by (simp add: bodyTemplates_def)
  then obtain b where b: "pick (rnd (4 * i + 3)) (bodyTemplates c) = Some b"
    using pick_defined [of "rnd (4 * i + 3)" "bodyTemplates c"] assms(1) by blast
  show ?thesis
    using c tp b by (cases tp) (simp add: fallbackEvent_def Let_def)
qed

lemma fallbackLoop_tickers:
  assumes "fallbackLoop rnd now cs count i acc = Inr out"
    and "\<forall>e \<in> set acc. NewsEvent.ticker e \<in> Company.ticker ` set cs"
  shows "\<forall>e \<in> set out. NewsEvent.ticker e \<in> Company.ticker ` set cs"
  using assms
proof (induction rnd now cs count i acc rule: fallbackLoop.induct)
  case (1 rnd now cs count i acc)
  show ?case
  proof (cases "int i < count \<and> i < length cs")
    case True
    with "1.prems"(1) obtain ev where
      ev: "fallbackEvent rnd now cs i = Inr ev" and
      run: "fallbackLoop rnd now cs count (Suc i) (acc @ [ev]) = Inr out"
      by (subst (asm) fallbackLoop.simps) (auto split: sum.splits)
    have "\<forall>e \<in> set (acc @ [ev]). NewsEvent.ticker e \<in> Company.ticker ` set cs"
      using "1.prems"(2) fallbackEvent_ticker [OF ev] by auto
    with "1.IH" [OF True ev run] show ?thesis .
  next
    case False
    with "1.prems" show ?thesis by (subst (asm) fallbackLoop.simps) auto
  qed
qed

lemma fallbackLoop_defined:
  assumes "\<And>k. 0 \<le> rnd k \<and> rnd k < 1"
  shows "\<exists>evs. fallbackLoop rnd now cs count i acc = Inr (acc @ evs) \<and>
               length evs = nat (min count (int (length cs))) - i"
  using assms
proof (induction rnd now cs count i acc rule: fallbackLoop.induct)
  case (1 rnd now cs count i acc)
  show ?case
  proof (cases "int i < count \<and> i < length cs")
    case True
    then have "cs \<noteq> []" by auto
    then obtain ev where ev: "fallbackEvent rnd now cs i = Inr ev"
      using fallbackEvent_defined [of rnd cs now i] "1.prems" by blast
    from "1.IH" [OF True ev "1.prems"] obtain evs where
      evs: "fallbackLoop rnd now cs count (Suc i) (acc @ [ev]) = Inr ((acc @ [ev]) @ evs)"
           "length evs = nat (min count (int (length cs))) - Suc i"
      by blast
    have "fallbackLoop rnd now cs count i acc = Inr (acc @ ev # evs)"
      using True ev evs(1) by (subst fallbackLoop.simps) simp
    moreover have "length (ev # evs) = nat (min count (int (length cs))) - i"
      using True evs(2) by auto
    ultimately show ?thesis by blast
  next
    case False
    then have "fallbackLoop rnd now cs count i acc = Inr (acc @ [])"
      by (subst fallbackLoop.simps) auto
    moreover have "length ([]::NewsEvent list) = nat (min count (int (length cs))) - i"
      using False by auto
    ultimately show ?thesis by blast
  qed
qed

lemma known_filter:
  "filter (\<lambda>n. list_ex (\<lambda>c. Company.ticker c = NewsEvent.ticker n) cs) parsed =
   [n \<leftarrow> parsed. NewsEvent.ticker n \<in> Company.ticker ` set cs]"
  by (rule filter_cong) (auto simp: list_ex_iff image_iff, metis)

lemma set_slice0: "set (slice0 k xs) \<subseteq> set xs"
  by (auto simp: slice0_def dest: in_set_takeD)

text \<open>
  C9. Every event \<^verbatim>\<open>generateNews\<close> returns has the ticker of a company of the input list:
  from a parsed response the events with unknown tickers are filtered out before the first
  \<open>count\<close> are kept, and when the external call fails the result is that of
  \<^verbatim>\<open>generateFallbackNews\<close>, which for draws in \<open>[0, 1)\<close> returns
  \<open>min count (length companies)\<close> events (none when that is not positive) instead of
  failing.
\<close>

theorem generateNews_known_tickers:
  "(generateNews rnd now response cs count = Inr evs \<longrightarrow>
      (\<forall>e \<in> set evs. NewsEvent.ticker e \<in> Company.ticker ` set cs))
   \<and> generateNews rnd now (Inr parsed) cs count =
       Inr (map (\<lambda>n. n\<lparr>timestamp := now\<rparr>)
             (slice0 count [n \<leftarrow> parsed. NewsEvent.ticker n \<in> Company.ticker ` set cs]))
   \<and> generateNews rnd now (Inl err) cs count = generateFallbackNews rnd now cs count
   \<and> ((\<forall>k. 0 \<le> rnd k \<and> rnd k < 1) \<longrightarrow>
        (\<exists>out. generateNews rnd now (Inl err) cs count = Inr out \<and>
               length out = nat (min count (int (length cs)))))"
proof -
  have b: "generateNews rnd now (Inr parsed) cs count =
       Inr (map (\<lambda>n. n\<lparr>timestamp := now\<rparr>)
             (slice0 count [n \<leftarrow> parsed. NewsEvent.ticker n \<in> Company.ticker ` set cs]))"
    by (simp add: generateNews_def known_filter)
  have c: "generateNews rnd now (Inl err) cs count = generateFallbackNews rnd now cs count"
    by (simp add: generateNews_def)
  have a: "\<forall>e \<in> set evs. NewsEvent.ticker e \<in> Company.ticker ` set cs"
    if run: "generateNews rnd now response cs count = Inr evs"
  proof (cases response)
    case (Inl err)
    with run have "fallbackLoop rnd now cs count 0 [] = Inr evs"
      by (simp add: generateNews_def generateFallbackNews_def)
    then show ?thesis by (rule fallbackLoop_tickers) simp
  next
    case (Inr parsed)
    with run have evs: "evs = map (\<lambda>n. n\<lparr>timestamp := now\<rparr>)
             (slice0 count [n \<leftarrow> parsed. NewsEvent.ticker n \<in> Company.ticker ` set cs])"
      by (simp add: generateNews_def known_filter)
    show ?thesis unfolding evs using set_slice0 [of count] by fastforce
  qed
  have d: "\<exists>out. generateNews rnd now (Inl err) cs count = Inr out \<and>
               length out = nat (min count (int (length cs)))"
    if "\<forall>k. 0 \<le> rnd k \<and> rnd k < 1"
    using fallbackLoop_defined [of rnd now cs count 0 "[]"] that
    by (simp add: generateNews_def generateFallbackNews_def)
  from a b c d show ?thesis by blast
qed

lemma demo_fallbackEvent:
  "fallbackEvent demoDraw 7000 [acme, volt] 0 = Inr (demoFallback 7000)"
  "fallbackEvent demoDraw 7000 [acme, volt] (Suc 0) = Inr (demoFallback 7100)"
  by (simp_all add: fallbackEvent_def pick_def demoDraw_def negativeTemplates_def
      bodyTemplates_def volt_def demoFallback_def Let_def)

lemma demo_fallback:
  "generateFallbackNews demoDraw 7000 [acme, volt] 2 = Inr [demoFallback 7000, demoFallback 7100]"
  by (simp add: generateFallbackNews_def fallbackLoop.simps demo_fallbackEvent)

theorem generateNews_known_tickers_witness:
  "generateNews demoDraw 7000 (Inr demoParsed :: unit + NewsEvent list) [acme, volt] 2 =
     Inr [acmeNews 0.8 0.7 7000, voltNews (- 0.9) 0.9 7000] \<and>
   (\<forall>k. 0 \<le> demoDraw k \<and> demoDraw k < 1) \<and>
   generateNews demoDraw 7000 (Inl ()) [acme, volt] 2 =
     Inr [demoFallback 7000, demoFallback 7100] \<and>
   NewsEvent.ticker ` set [demoFallback 7000, demoFallback 7100] \<subseteq>
     Company.ticker ` set [acme, volt]"
proof -
  note t = generateNews_known_tickers
    [of demoDraw 7000 "Inl ()" "[acme, volt]" 2 "[demoFallback 7000, demoFallback 7100]"
        demoParsed "()"]
  have d: "\<forall>k. 0 \<le> demoDraw k \<and> demoDraw k < 1" by (simp add: demoDraw_def)
  have "generateNews demoDraw 7000 (Inr demoParsed :: unit + NewsEvent list) [acme, volt] 2 =
       Inr (map (\<lambda>n. n\<lparr>timestamp := 7000\<rparr>)
             (slice0 2 [n \<leftarrow> demoParsed. NewsEvent.ticker n \<in> Company.ticker ` set [acme, volt]]))"
    using t by blast
  then have p: "generateNews demoDraw 7000 (Inr demoParsed :: unit + NewsEvent list) [acme, volt] 2 =
     Inr [acmeNews 0.8 0.7 7000, voltNews (- 0.9) 0.9 7000]"
    by (simp add: demoParsed_def slice0_def acme_def volt_def acmeNews_def voltNews_def)
  have "generateNews demoDraw 7000 (Inl ()) [acme, volt] 2 =
          generateFallbackNews demoDraw 7000 [acme, volt] 2"
    using t by blast
  then have f: "generateNews demoDraw 7000 (Inl ()) [acme, volt] 2 =
     Inr [demoFallback 7000, demoFallback 7100]"
    by (simp add: demo_fallback)
  from t f have "\<forall>e \<in> set [demoFallback 7000, demoFallback 7100].
      NewsEvent.ticker e \<in> Company.ticker ` set [acme, volt]"
    by blast
  then have k: "NewsEvent.ticker ` set [demoFallback 7000, demoFallback 7100] \<subseteq>
     Company.ticker ` set [acme, volt]"
    by blast
  from p d f k show ?thesis by blast
qed

section \<open>Sentiment of several events: proofs\<close>

lemma stack_fallbackEvent:
  "fallbackEvent stackDraw 7000 [acme, volt, medi] 0 = Inr (stackEvent 7000)"
  "fallbackEvent stackDraw 7000 [acme, volt, medi] (Suc 0) = Inr (stackEvent 7100)"
  "fallbackEvent stackDraw 7000 [acme, volt, medi] (Suc (Suc 0)) = Inr (stackEvent 7200)"
  by (simp_all add: fallbackEvent_def pick_def stackDraw_def positiveTemplates_def
      bodyTemplates_def medi_def stackEvent_def Let_def)

lemma stack_fallback:
  "generateFallbackNews stackDraw 7000 [acme, volt, medi] 3 =
     Inr [stackEvent 7000, stackEvent 7100, stackEvent 7200]"
  by (simp add: generateFallbackNews_def fallbackLoop.simps stack_fallbackEvent)

text \<open>
  C3. The claimed bound of 0.08 on the sentiment impact, which the comment on the line that
  computes it repeats (\<^verbatim>\<open>Max 8% impact\<close>), does not hold in the code: the sum over the
  matching events is neither averaged nor clamped. One call of the fallback generator can
  return three events for one company, each in range, and at volatility 0.5 the engine then
  computes an impact of 0.0864.
\<close>

theorem sentimentImpact_exceeds_eight_percent:
  "generateFallbackNews stackDraw 7000 [acme, volt, medi] 3 =
     Inr [stackEvent 7000, stackEvent 7100, stackEvent 7200] \<and>
   list_all inRange [stackEvent 7000, stackEvent 7100, stackEvent 7200] \<and>
   volatility medi = 0.5 \<and>
   sentimentImpact 11000 medi [stackEvent 7000, stackEvent 7100, stackEvent 7200] = 0.0864 \<and>
   \<not> \<bar>sentimentImpact 11000 medi [stackEvent 7000, stackEvent 7100, stackEvent 7200]\<bar> \<le> 0.08"
  using stack_fallback
  by (simp add: sentimentImpact_def recentNewsForCompany_def medi_def stackEvent_def
      inRange_def Let_def)

end
